theory Spec2Isabelle
  imports Complex_Main
begin

section \<open>Data model of \<^verbatim>\<open>scrapper.py\<close>\<close>

text \<open>
  The script works on the decoded JSON of the issue tracker: Python dicts, lists, strings,
  integers, booleans and \<^verbatim>\<open>None\<close>. A dict is an association list read with
  \<open>map_of\<close> (a decoded JSON object has distinct keys). Strings are HOL strings, one
  \<open>char\<close> per code point. Numbers are integers: the script does no arithmetic on a JSON
  number, it only passes \<^verbatim>\<open>comment.total\<close> through.
\<close>

datatype json =
    JNull
  | JBool bool
  | JNum int
  | JStr string
  | JArr "json list"
  | JObj "(string \<times> json) list"

text \<open>The exceptions the script can raise, as values.\<close>

datatype error = KeyError | TypeError | AttributeError | ValueError | HTTPError

subsection \<open>The Python operations the script applies to decoded JSON\<close>

text \<open>Truth value testing: \<^verbatim>\<open>if x\<close>, \<^verbatim>\<open>x and y\<close>, \<^verbatim>\<open>not x\<close>.\<close>

fun truthy :: "json \<Rightarrow> bool" where
  "truthy JNull = False"
| "truthy (JBool b) = b"
| "truthy (JNum n) = (n \<noteq> 0)"
| "truthy (JStr s) = (s \<noteq> [])"
| "truthy (JArr xs) = (xs \<noteq> [])"
| "truthy (JObj kvs) = (kvs \<noteq> [])"

text \<open>
  Subscription with a string key, \<^verbatim>\<open>v['k']\<close>: a dict raises KeyError on a missing key;
  a string or list rejects a string index and the other values are not subscriptable,
  both with TypeError.
\<close>

fun getitem :: "json \<Rightarrow> string \<Rightarrow> error + json" where
  "getitem (JObj kvs) k = (case map_of kvs k of None \<Rightarrow> Inl KeyError | Some v \<Rightarrow> Inr v)"
| "getitem _ k = Inl TypeError"

text \<open>\<^verbatim>\<open>v.get('k', d)\<close>: only a dict has the method.\<close>

fun get :: "json \<Rightarrow> string \<Rightarrow> json \<Rightarrow> error + json" where
  "get (JObj kvs) k d = (case map_of kvs k of None \<Rightarrow> Inr d | Some v \<Rightarrow> Inr v)"
| "get _ k d = Inl AttributeError"

text \<open>
  The elements a \<^verbatim>\<open>for\<close> loop visits: those of a list, the keys of a dict, the
  one-character strings of a string; the other values are not iterable.
\<close>

fun iter :: "json \<Rightarrow> error + json list" where
  "iter (JArr xs) = Inr xs"
| "iter (JObj kvs) = Inr (map (\<lambda>kv. JStr (fst kv)) kvs)"
| "iter (JStr s) = Inr (map (\<lambda>c. JStr [c]) s)"
| "iter _ = Inl TypeError"

text \<open>
  \<^verbatim>\<open>str.lower()\<close>. Only the letters A to Z are mapped: the results are compared with
  ASCII literals only, and no other code point that a \<open>char\<close> can hold lowers to an
  ASCII letter.
\<close>

definition lower_char :: "char \<Rightarrow> char" where
  "lower_char c =
     (case map_of (zip ''ABCDEFGHIJKLMNOPQRSTUVWXYZ'' ''abcdefghijklmnopqrstuvwxyz'') c of
        None \<Rightarrow> c
      | Some d \<Rightarrow> d)"

fun lower :: "json \<Rightarrow> error + string" where
  "lower (JStr s) = Inr (map lower_char s)"
| "lower _ = Inl AttributeError"

text \<open>\<^verbatim>\<open>len(v)\<close>.\<close>

fun len :: "json \<Rightarrow> error + int" where
  "len (JStr s) = Inr (int (length s))"
| "len (JArr xs) = Inr (int (length xs))"
| "len (JObj kvs) = Inr (int (length kvs))"
| "len _ = Inl TypeError"

subsection \<open>Timestamps\<close>

text \<open>
  \<^verbatim>\<open>datetime.strptime(s, '%Y-%m-%dT%H:%M:%S.%f%z')\<close> is library code. Its parser is a
  parameter \<open>P\<close>: \<open>P s\<close> is the instant that \<open>s\<close> denotes, in microseconds since the
  epoch (the resolution of \<^verbatim>\<open>datetime\<close>, with the UTC offset applied), or \<open>None\<close>
  where \<open>s\<close> does not match the format (ValueError). An argument that is not a string
  raises TypeError.
\<close>

type_synonym parser = "string \<Rightarrow> int option"

fun strptime :: "parser \<Rightarrow> json \<Rightarrow> error + int" where
  "strptime P (JStr s) = (case P s of None \<Rightarrow> Inl ValueError | Some t \<Rightarrow> Inr t)"
| "strptime P _ = Inl TypeError"

text \<open>
  \<^verbatim>\<open>(end - start).total_seconds() / 3600\<close> for a difference of \<open>d\<close> microseconds. The
  quotient is the exact real number; the rounding of the two float divisions is not
  modelled.
\<close>

definition hours :: "int \<Rightarrow> real" where
  "hours d = real_of_int d / 1000000 / 3600"

section \<open>FeatureExtractor.get\_in\_progress\_duration\<close>

text \<open>
  The inner loop over the items of one history entry, with the two variables
  \<^verbatim>\<open>from_status_time\<close> and \<^verbatim>\<open>to_done_time\<close> passed as state (\<^verbatim>\<open>None\<close> is
  \<open>JNull\<close>). The \<^verbatim>\<open>break\<close> returns without visiting the remaining items.
\<close>

definition done_statuses :: "string list" where
  "done_statuses = [''done'', ''resolved'', ''closed'', ''fixed'']"

fun scan_items :: "json \<Rightarrow> json list \<Rightarrow> json \<Rightarrow> json \<Rightarrow> error + (json \<times> json)" where
  "scan_items history [] from_status_time to_done_time = Inr (from_status_time, to_done_time)"
| "scan_items history (item # items) from_status_time to_done_time =
     (case getitem item ''field'' of
        Inl e \<Rightarrow> Inl e
      | Inr field \<Rightarrow>
          if field = JStr ''status'' then
            (case getitem item ''toString'' of
               Inl e \<Rightarrow> Inl e
             | Inr to_string \<Rightarrow>
                 (case lower to_string of
                    Inl e \<Rightarrow> Inl e
                  | Inr s \<Rightarrow>
                      if s = ''in progress'' then
                        (case getitem history ''created'' of
                           Inl e \<Rightarrow> Inl e
                         | Inr created \<Rightarrow> scan_items history items created to_done_time)
                      else if s \<in> set done_statuses \<and> truthy from_status_time then
                        (case getitem history ''created'' of
                           Inl e \<Rightarrow> Inl e
                         | Inr created \<Rightarrow> Inr (from_status_time, created))
                      else scan_items history items from_status_time to_done_time))
          else scan_items history items from_status_time to_done_time)"

text \<open>The outer loop over the history entries; it stops once \<^verbatim>\<open>to_done_time\<close> is truthy.\<close>

fun scan_histories :: "json list \<Rightarrow> json \<Rightarrow> json \<Rightarrow> error + (json \<times> json)" where
  "scan_histories [] from_status_time to_done_time = Inr (from_status_time, to_done_time)"
| "scan_histories (history # histories) from_status_time to_done_time =
     (case get history ''items'' (JArr []) of
        Inl e \<Rightarrow> Inl e
      | Inr its \<Rightarrow>
          (case iter its of
             Inl e \<Rightarrow> Inl e
           | Inr items \<Rightarrow>
               (case scan_items history items from_status_time to_done_time of
                  Inl e \<Rightarrow> Inl e
                | Inr (from_status_time', to_done_time') \<Rightarrow>
                    if truthy to_done_time' then Inr (from_status_time', to_done_time')
                    else scan_histories histories from_status_time' to_done_time')))"

definition get_in_progress_duration :: "parser \<Rightarrow> json \<Rightarrow> error + real option" where
  "get_in_progress_duration P changelog =
     (case get changelog ''histories'' (JArr []) of
        Inl e \<Rightarrow> Inl e
      | Inr hs \<Rightarrow>
          (case iter hs of
             Inl e \<Rightarrow> Inl e
           | Inr histories \<Rightarrow>
               (case scan_histories histories JNull JNull of
                  Inl e \<Rightarrow> Inl e
                | Inr (from_status_time, to_done_time) \<Rightarrow>
                    if truthy from_status_time \<and> truthy to_done_time then
                      (case strptime P from_status_time of
                         Inl e \<Rightarrow> Inl e
                       | Inr start \<Rightarrow>
                           (case strptime P to_done_time of
                              Inl e \<Rightarrow> Inl e
                            | Inr end_time \<Rightarrow> Inr (Some (hours (end_time - start)))))
                    else Inr None)))"

section \<open>GitRepoAnalyzer.map\_issues\_to\_commits\<close>

text \<open>
  What the script reads of a GitPython commit: its message, the dict \<^verbatim>\<open>stats.total\<close>
  and the paths that are the keys of the dict \<^verbatim>\<open>stats.files\<close>. \<open>hexsha\<close> is the
  identity of the commit.
\<close>

record commit =
  hexsha :: string
  message :: string
  stats_total :: "(string \<times> int) list"
  stats_files :: "string list"

text \<open>The dict from issue key to commit list.\<close>

type_synonym issue_commit_map = "string \<rightharpoonup> commit list"

text \<open>\<^verbatim>\<open>issue_commit_map.setdefault(issue_id, []).append(commit)\<close>\<close>

definition setdefault_append :: "issue_commit_map \<Rightarrow> string \<Rightarrow> commit \<Rightarrow> issue_commit_map" where
  "setdefault_append m issue_id c =
     m(issue_id \<mapsto> (case m issue_id of None \<Rightarrow> [] | Some cs \<Rightarrow> cs) @ [c])"

text \<open>The inner loop over the matches of one commit message.\<close>

fun append_matches :: "issue_commit_map \<Rightarrow> commit \<Rightarrow> string list \<Rightarrow> issue_commit_map" where
  "append_matches m c [] = m"
| "append_matches m c (issue_id # matches) =
     append_matches (setdefault_append m issue_id c) c matches"

text \<open>
  The outer loop over \<^verbatim>\<open>self.repo.iter_commits()\<close>. The regular-expression engine is
  library code: \<open>findall\<close> stands for \<^verbatim>\<open>re.findall(self.config.issue_key_pattern, _)\<close>,
  the list of the matched keys of a message from left to right.
\<close>

fun map_commits ::
  "(string \<Rightarrow> string list) \<Rightarrow> issue_commit_map \<Rightarrow> commit list \<Rightarrow> issue_commit_map" where
  "map_commits findall m [] = m"
| "map_commits findall m (c # cs) =
     map_commits findall (append_matches m c (findall (message c))) cs"

text \<open>The argument \<open>issues\<close> is not used, as in the source.\<close>

definition map_issues_to_commits ::
  "(string \<Rightarrow> string list) \<Rightarrow> commit list \<Rightarrow> json list \<Rightarrow> issue_commit_map" where
  "map_issues_to_commits findall commits issues = map_commits findall Map.empty commits"

subsection \<open>The pattern of a literal project key\<close>

text \<open>
  \<^verbatim>\<open>re.findall(rf'({jira_key}-\d+)', message)\<close> for a \<^verbatim>\<open>jira_key\<close> without regular
  expression metacharacters (such as CALCITE and IVY, the two configured projects): the
  leftmost occurrences of the key, a hyphen and the longest run of digits that follows,
  not overlapping.
\<close>

definition is_digit :: "char \<Rightarrow> bool" where
  "is_digit c = (c \<in> set ''0123456789'')"

definition match_here :: "string \<Rightarrow> string \<Rightarrow> string option" where
  "match_here jira_key s =
     (let p = jira_key @ ''-''; ds = takeWhile is_digit (drop (length p) s)
      in if take (length p) s = p \<and> ds \<noteq> [] then Some (p @ ds) else None)"

function findall_key :: "string \<Rightarrow> string \<Rightarrow> string list" where
  "findall_key jira_key s =
     (case match_here jira_key s of
        Some m \<Rightarrow> m # findall_key jira_key (drop (length m) s)
      | None \<Rightarrow> (case s of [] \<Rightarrow> [] | c # t \<Rightarrow> findall_key jira_key t))"
  by pat_completeness auto
termination
proof (relation "measure (\<lambda>(k, s). length s)")
  show "wf (measure (\<lambda>(k, s). length s))" by simp
next
  fix jira_key s m :: string
  assume h: "match_here jira_key s = Some m"
  then have "take (length (jira_key @ ''-'')) s = jira_key @ ''-''" and "m \<noteq> []"
    by (auto simp: match_here_def Let_def split: if_splits)
  then have "s \<noteq> []" and "0 < length m" by auto
  then show "((jira_key, drop (length m) s), (jira_key, s)) \<in> measure (\<lambda>(k, s). length s)"
    by simp
next
  fix jira_key s t :: string and c :: char
  assume "s = c # t"
  then show "((jira_key, t), (jira_key, s)) \<in> measure (\<lambda>(k, s). length s)" by simp
qed

declare findall_key.simps [simp del]

section \<open>FeatureExtractor.extract\<close>

text \<open>One row of the dataset: the dict that \<^verbatim>\<open>extract\<close> appends to \<^verbatim>\<open>data\<close>.\<close>

record row =
  issue_id :: json
  issue_type :: json
  priority :: json
  description_length :: int
  num_comments :: json
  time_to_resolve_hours :: "real option"
  time_in_progress_hours :: "real option"
  lines_added :: int
  lines_deleted :: int
  lines_updated_est :: int
  total_files_changed :: int
  num_commits :: int

text \<open>
  \<^verbatim>\<open>self.issue_commit_map.get(key, [])\<close>: the keys of the dict are strings, so another
  hashable key is not found; a list or a dict is not hashable.
\<close>

fun map_get :: "issue_commit_map \<Rightarrow> json \<Rightarrow> error + commit list" where
  "map_get m (JStr k) = Inr (case m k of None \<Rightarrow> [] | Some cs \<Rightarrow> cs)"
| "map_get m (JArr xs) = Inl TypeError"
| "map_get m (JObj kvs) = Inl TypeError"
| "map_get m _ = Inr []"

text \<open>\<^verbatim>\<open>commit.stats.total.get(k, 0)\<close>\<close>

definition total_get :: "commit \<Rightarrow> string \<Rightarrow> int" where
  "total_get c k = (case map_of (stats_total c) k of None \<Rightarrow> 0 | Some n \<Rightarrow> n)"

text \<open>Sequencing of statements that may raise.\<close>

definition bind_err :: "error + 'a \<Rightarrow> ('a \<Rightarrow> error + 'b) \<Rightarrow> error + 'b" where
  "bind_err x f = (case x of Inl e \<Rightarrow> Inl e | Inr v \<Rightarrow> f v)"

text \<open>
  The statements of the loop body of \<^verbatim>\<open>extract\<close> that may raise, one definition
  per source line; \<open>flds\<close> is the variable \<^verbatim>\<open>fields\<close>. A conditional expression
  evaluates its condition first, so the field is read twice.
\<close>

text \<open>Line 113: \<^verbatim>\<open>created = datetime.strptime(fields['created'], ...)\<close>\<close>

definition created_of :: "parser \<Rightarrow> json \<Rightarrow> error + int" where
  "created_of P flds = bind_err (getitem flds ''created'') (strptime P)"

text \<open>
  Line 114:
  \<^verbatim>\<open>resolved = datetime.strptime(fields['resolutiondate'], ...) if fields['resolutiondate'] else None\<close>
\<close>

definition resolved_of :: "parser \<Rightarrow> json \<Rightarrow> error + int option" where
  "resolved_of P flds =
     bind_err (getitem flds ''resolutiondate'') (\<lambda>rd.
       if truthy rd
       then bind_err (getitem flds ''resolutiondate'')
              (\<lambda>rd'. bind_err (strptime P rd') (\<lambda>t. Inr (Some t)))
       else Inr None)"

text \<open>
  Line 115:
  \<^verbatim>\<open>time_to_resolve = (resolved - created).total_seconds() / 3600 if resolved else None\<close>;
  a \<^verbatim>\<open>datetime\<close> is always truthy.
\<close>

definition time_to_resolve_of :: "int \<Rightarrow> int option \<Rightarrow> real option" where
  "time_to_resolve_of created resolved =
     (case resolved of None \<Rightarrow> None | Some t \<Rightarrow> Some (hours (t - created)))"

text \<open>
  Line 118:
  \<^verbatim>\<open>description_length = len(fields['description']) if fields['description'] else 0\<close>
\<close>

definition description_length_of :: "json \<Rightarrow> error + int" where
  "description_length_of flds =
     bind_err (getitem flds ''description'') (\<lambda>d.
       if truthy d then bind_err (getitem flds ''description'') len else Inr 0)"

text \<open>
  Line 119: \<^verbatim>\<open>num_comments = fields['comment']['total'] if fields['comment'] else 0\<close>
\<close>

definition num_comments_of :: "json \<Rightarrow> error + json" where
  "num_comments_of flds =
     bind_err (getitem flds ''comment'') (\<lambda>cm.
       if truthy cm
       then bind_err (getitem flds ''comment'') (\<lambda>cm'. getitem cm' ''total'')
       else Inr (JNum 0))"

text \<open>Lines 130 and 131: \<^verbatim>\<open>fields['issuetype']['name']\<close>, \<^verbatim>\<open>fields['priority']['name']\<close>\<close>

definition name_of :: "json \<Rightarrow> string \<Rightarrow> error + json" where
  "name_of flds k = bind_err (getitem flds k) (\<lambda>v. getitem v ''name'')"

text \<open>
  Lines 113 to 141: the row of an issue that has commits, computed in the order of the
  source.
\<close>

definition build_row :: "parser \<Rightarrow> json \<Rightarrow> json \<Rightarrow> json \<Rightarrow> commit list \<Rightarrow> error + row" where
  "build_row P key flds changelog commits =
     bind_err (created_of P flds) (\<lambda>created.
     bind_err (resolved_of P flds) (\<lambda>resolved.
     bind_err (get_in_progress_duration P changelog) (\<lambda>time_in_progress.
     bind_err (description_length_of flds) (\<lambda>description_length'.
     bind_err (num_comments_of flds) (\<lambda>num_comments'.
     bind_err (name_of flds ''issuetype'') (\<lambda>issue_type'.
     bind_err (name_of flds ''priority'') (\<lambda>priority'.
     Inr \<lparr>issue_id = key,
          issue_type = issue_type',
          priority = priority',
          description_length = description_length',
          num_comments = num_comments',
          time_to_resolve_hours = time_to_resolve_of created resolved,
          time_in_progress_hours = time_in_progress,
          lines_added = sum_list (map (\<lambda>c. total_get c ''insertions'') commits),
          lines_deleted = sum_list (map (\<lambda>c. total_get c ''deletions'') commits),
          lines_updated_est =
            min (sum_list (map (\<lambda>c. total_get c ''insertions'') commits))
                (sum_list (map (\<lambda>c. total_get c ''deletions'') commits)),
          total_files_changed = sum_list (map (\<lambda>c. int (length (stats_files c))) commits),
          num_commits = int (length commits)\<rparr>)))))))"

text \<open>
  Lines 104 to 111 and the call of the rest: the body of the loop for one issue.
  \<open>None\<close> is an issue that is skipped (\<^verbatim>\<open>continue\<close>).
\<close>

definition extract_issue :: "parser \<Rightarrow> issue_commit_map \<Rightarrow> json \<Rightarrow> error + row option" where
  "extract_issue P m issue =
     bind_err (getitem issue ''key'') (\<lambda>key.
     bind_err (getitem issue ''fields'') (\<lambda>fields.
     bind_err (get issue ''changelog'' (JObj [])) (\<lambda>changelog.
     bind_err (map_get m key) (\<lambda>commits.
     if commits = [] then Inr None
     else bind_err (build_row P key fields changelog commits) (\<lambda>r. Inr (Some r))))))"

text \<open>
  The loop over \<^verbatim>\<open>self.issues\<close>, with the list \<^verbatim>\<open>data\<close> and the counter
  \<^verbatim>\<open>skipped_no_commits\<close> as state (named \<open>extract'\<close>: the plain name is a command of
  Isabelle). The result is the list of rows that the data frame
  is built from, with the count of skipped issues that the script prints.
\<close>

fun extract_loop ::
  "parser \<Rightarrow> issue_commit_map \<Rightarrow> json list \<Rightarrow> row list \<Rightarrow> nat \<Rightarrow> error + (row list \<times> nat)" where
  "extract_loop P m [] data skipped_no_commits = Inr (data, skipped_no_commits)"
| "extract_loop P m (issue # issues) data skipped_no_commits =
     (case extract_issue P m issue of
        Inl e \<Rightarrow> Inl e
      | Inr None \<Rightarrow> extract_loop P m issues data (skipped_no_commits + 1)
      | Inr (Some r) \<Rightarrow> extract_loop P m issues (data @ [r]) skipped_no_commits)"

definition extract' :: "parser \<Rightarrow> json list \<Rightarrow> issue_commit_map \<Rightarrow> error + (row list \<times> nat)" where
  "extract' P issues m = extract_loop P m issues [] 0"

section \<open>JiraClient.fetch\_issues\<close>

text \<open>
  The tracker is outside the program: \<open>server n start_at max_results\<close> is what the
  \<open>n\<close>-th request of the run (counted from 0), with these two parameters, yields after
  \<^verbatim>\<open>raise_for_status()\<close> and \<^verbatim>\<open>json()\<close>: the decoded body or the exception. The
  model keeps the list of the offsets requested so far beside the accumulated issues.
\<close>

type_synonym server = "nat \<Rightarrow> int \<Rightarrow> int \<Rightarrow> error + json"

text \<open>The right operand of \<^verbatim>\<open>start_at + self.max_results >= data['total']\<close>.\<close>

fun as_number :: "json \<Rightarrow> error + int" where
  "as_number (JNum n) = Inr n"
| "as_number (JBool b) = Inr (if b then 1 else 0)"
| "as_number _ = Inl TypeError"

text \<open>
  One pass through the body of \<^verbatim>\<open>while True\<close>, up to the test: the issues with the
  page appended, and whether the loop breaks.
\<close>

definition fetch_page ::
  "server \<Rightarrow> int \<Rightarrow> int \<Rightarrow> json list \<Rightarrow> nat \<Rightarrow> error + (json list \<times> bool)" where
  "fetch_page srv max_results start_at issues n =
     bind_err (srv n start_at max_results) (\<lambda>data.
     bind_err (bind_err (getitem data ''issues'') iter) (\<lambda>page.
     bind_err (bind_err (getitem data ''total'') as_number) (\<lambda>total.
     Inr (issues @ page, start_at + max_results \<ge> total))))"

text \<open>The loop may run forever (a page size of 0, a total that grows): \<open>None\<close>.\<close>

partial_function (option) fetch_loop ::
  "server \<Rightarrow> int \<Rightarrow> int \<Rightarrow> json list \<Rightarrow> int list \<Rightarrow> (error + (json list \<times> int list)) option" where
  "fetch_loop srv max_results start_at issues requested =
     (case fetch_page srv max_results start_at issues (length requested) of
        Inl e \<Rightarrow> Some (Inl e)
      | Inr (issues', stop) \<Rightarrow>
          if stop then Some (Inr (issues', requested @ [start_at]))
          else fetch_loop srv max_results (start_at + max_results) issues'
                 (requested @ [start_at]))"

definition fetch_issues :: "server \<Rightarrow> int \<Rightarrow> (error + (json list \<times> int list)) option" where
  "fetch_issues srv max_results = fetch_loop srv max_results 0 [] []"

section \<open>Notions used to state the properties\<close>

text \<open>
  The commits mapped to the key of an issue: what \<^verbatim>\<open>self.issue_commit_map.get(key, [])\<close>
  yields for it, and no commit where the key cannot be read or looked up.
\<close>

definition mapped_commits :: "issue_commit_map \<Rightarrow> json \<Rightarrow> commit list" where
  "mapped_commits m issue =
     (case getitem issue ''key'' of
        Inl e \<Rightarrow> []
      | Inr key \<Rightarrow> (case map_get m key of Inl e \<Rightarrow> [] | Inr cs \<Rightarrow> cs))"

text \<open>The field \<open>k\<close> of an issue: \<^verbatim>\<open>issue['fields'][k]\<close>.\<close>

definition issue_field :: "json \<Rightarrow> string \<Rightarrow> error + json" where
  "issue_field issue k = bind_err (getitem issue ''fields'') (\<lambda>flds. getitem flds k)"

subsection \<open>Status items and history entries\<close>

text \<open>
  What the scan reads of an item: the lower-cased target status of a status item,
  \<open>None\<close> for an item of another field, or the exception that reading it raises.
\<close>

definition status_target :: "json \<Rightarrow> error + string option" where
  "status_target item =
     bind_err (getitem item ''field'') (\<lambda>field.
       if field = JStr ''status''
       then bind_err (getitem item ''toString'') (\<lambda>to_string.
              bind_err (lower to_string) (\<lambda>s. Inr (Some s)))
       else Inr None)"

text \<open>
  An item is a transition to "in progress", a transition to one of the four terminal
  statuses, or one that the scan reads without an exception.
\<close>

definition is_in_progress :: "json \<Rightarrow> bool" where
  "is_in_progress item = (status_target item = Inr (Some ''in progress''))"

definition is_terminal :: "json \<Rightarrow> bool" where
  "is_terminal item =
     (case status_target item of Inr (Some s) \<Rightarrow> s \<in> set done_statuses | _ \<Rightarrow> False)"

definition readable :: "json \<Rightarrow> bool" where
  "readable item = (case status_target item of Inl e \<Rightarrow> False | Inr t \<Rightarrow> True)"

text \<open>
  The items and the creation time of a history entry, and a well-formed entry: its
  \<^verbatim>\<open>created\<close> is a non-empty string and all its items are readable.
\<close>

definition entry_items :: "json \<Rightarrow> json list" where
  "entry_items history =
     (case bind_err (get history ''items'' (JArr [])) iter of Inl e \<Rightarrow> [] | Inr items \<Rightarrow> items)"

definition entry_created :: "json \<Rightarrow> json" where
  "entry_created history = (case getitem history ''created'' of Inl e \<Rightarrow> JNull | Inr c \<Rightarrow> c)"

definition wf_entry :: "json \<Rightarrow> bool" where
  "wf_entry history =
     ((case getitem history ''created'' of Inr (JStr ts) \<Rightarrow> ts \<noteq> [] | _ \<Rightarrow> False) \<and>
      (case bind_err (get history ''items'' (JArr [])) iter of
         Inl e \<Rightarrow> False
       | Inr items \<Rightarrow> list_all readable items))"

text \<open>
  The items of a changelog in the order of the scan, each with the creation time of
  its entry.
\<close>

definition transitions :: "json list \<Rightarrow> (json \<times> json) list" where
  "transitions histories =
     concat (map (\<lambda>h. map (\<lambda>item. (entry_created h, item)) (entry_items h)) histories)"

text \<open>
  The scan on such a list: the state \<^verbatim>\<open>from_status_time\<close>, and the time of the
  terminal transition at which the scan stops, if it does.
\<close>

fun scan_flat :: "(json \<times> json) list \<Rightarrow> json \<Rightarrow> json \<times> json option" where
  "scan_flat [] f = (f, None)"
| "scan_flat ((c, item) # rest) f =
     (if is_in_progress item then scan_flat rest c
      else if is_terminal item \<and> truthy f then (f, Some c)
      else scan_flat rest f)"

subsection \<open>Issues that extract can read\<close>

text \<open>A statement returns when it raises nothing.\<close>

definition returns :: "error + 'a \<Rightarrow> bool" where
  "returns x = (case x of Inl e \<Rightarrow> False | Inr v \<Rightarrow> True)"

text \<open>An optional field is present, and null or of the type that the script expects.\<close>

definition null_or :: "(json \<Rightarrow> bool) \<Rightarrow> error + json \<Rightarrow> bool" where
  "null_or ok x = (case x of Inl e \<Rightarrow> False | Inr v \<Rightarrow> v = JNull \<or> ok v)"

definition optional_ok :: "parser \<Rightarrow> json \<Rightarrow> bool" where
  "optional_ok P issue =
     (null_or (\<lambda>d. returns (len d)) (issue_field issue ''description'') \<and>
      null_or (\<lambda>rd. returns (strptime P rd)) (issue_field issue ''resolutiondate'') \<and>
      null_or (\<lambda>cm. returns (getitem cm ''total'')) (issue_field issue ''comment''))"

text \<open>
  The other reads of the loop body return: the key, the fields and the changelog and,
  for an issue with commits, the creation time, the status scan and the two names.
\<close>

definition required_ok :: "parser \<Rightarrow> issue_commit_map \<Rightarrow> json \<Rightarrow> bool" where
  "required_ok P m issue =
     (returns (bind_err (getitem issue ''key'') (map_get m)) \<and>
      returns (getitem issue ''fields'') \<and>
      returns (get issue ''changelog'' (JObj [])) \<and>
      (mapped_commits m issue = [] \<or>
       returns (bind_err (getitem issue ''fields'') (created_of P)) \<and>
       returns (bind_err (get issue ''changelog'' (JObj [])) (get_in_progress_duration P)) \<and>
       returns (bind_err (getitem issue ''fields'') (\<lambda>flds. name_of flds ''issuetype'')) \<and>
       returns (bind_err (getitem issue ''fields'') (\<lambda>flds. name_of flds ''priority''))))"

section \<open>A small tracker and repository\<close>

text \<open>
  Concrete inputs on which the definitions are evaluated. The parser knows five
  timestamps of one day, at 0, 1, 2, 4 and 10 o'clock UTC.
\<close>

definition demo_parser :: parser where
  "demo_parser = map_of
     [(''2024-01-01T00:00:00.000+0000'', 1704067200000000),
      (''2024-01-01T01:00:00.000+0000'', 1704070800000000),
      (''2024-01-01T02:00:00.000+0000'', 1704074400000000),
      (''2024-01-01T04:00:00.000+0000'', 1704081600000000),
      (''2024-01-01T10:00:00.000+0000'', 1704103200000000)]"

definition status_item :: "string \<Rightarrow> json" where
  "status_item s = JObj [(''field'', JStr ''status''), (''toString'', JStr s)]"

definition history_entry :: "string \<Rightarrow> json list \<Rightarrow> json" where
  "history_entry t its = JObj [(''created'', JStr t), (''items'', JArr its)]"

definition demo_histories :: "json list" where
  "demo_histories =
     [history_entry ''2024-01-01T00:00:00.000+0000'' [status_item ''Open''],
      history_entry ''2024-01-01T01:00:00.000+0000'' [status_item ''In Progress''],
      history_entry ''2024-01-01T02:00:00.000+0000'' [status_item ''In Progress''],
      history_entry ''2024-01-01T04:00:00.000+0000'' [status_item ''Resolved'']]"

definition demo_changelog :: json where
  "demo_changelog = JObj [(''histories'', JArr demo_histories)]"

definition demo_commit1 :: commit where
  "demo_commit1 = \<lparr>hexsha = ''c1'', message = ''[CALCITE-1] Fix planner (closes CALCITE-1)'',
     stats_total = [(''insertions'', 5), (''deletions'', 3), (''lines'', 8), (''files'', 2)],
     stats_files = [''a.java'', ''b.java'']\<rparr>"

definition demo_commit2 :: commit where
  "demo_commit2 = \<lparr>hexsha = ''c2'', message = ''CALCITE-3: remove dead code'',
     stats_total = [(''insertions'', 0), (''deletions'', 7), (''lines'', 7), (''files'', 1)],
     stats_files = [''c.java'']\<rparr>"

definition demo_commit3 :: commit where
  "demo_commit3 = \<lparr>hexsha = ''c3'', message = ''Update site'',
     stats_total = [(''insertions'', 1), (''deletions'', 1), (''lines'', 2), (''files'', 1)],
     stats_files = [''index.md'']\<rparr>"

definition demo_commits :: "commit list" where
  "demo_commits = [demo_commit3, demo_commit2, demo_commit1]"

definition demo_issue1 :: json where
  "demo_issue1 = JObj
     [(''key'', JStr ''CALCITE-1''),
      (''fields'', JObj
         [(''created'', JStr ''2024-01-01T00:00:00.000+0000''),
          (''resolutiondate'', JStr ''2024-01-01T10:00:00.000+0000''),
          (''description'', JStr ''abc''),
          (''comment'', JObj [(''total'', JNum 2)]),
          (''issuetype'', JObj [(''name'', JStr ''Bug'')]),
          (''priority'', JObj [(''name'', JStr ''Major'')])]),
      (''changelog'', demo_changelog)]"

definition demo_issue2 :: json where
  "demo_issue2 = JObj [(''key'', JStr ''CALCITE-2''), (''fields'', JObj [])]"

definition demo_issue3 :: json where
  "demo_issue3 = JObj
     [(''key'', JStr ''CALCITE-3''),
      (''fields'', JObj
         [(''created'', JStr ''2024-01-01T01:00:00.000+0000''),
          (''resolutiondate'', JNull),
          (''description'', JNull),
          (''comment'', JNull),
          (''issuetype'', JObj [(''name'', JStr ''Task'')]),
          (''priority'', JObj [(''name'', JStr ''Minor'')])])]"

definition demo_issues :: "json list" where
  "demo_issues = [demo_issue1, demo_issue2, demo_issue3]"

definition demo_map :: issue_commit_map where
  "demo_map = map_issues_to_commits (findall_key ''CALCITE'') demo_commits demo_issues"

definition demo_row1 :: row where
  "demo_row1 = \<lparr>issue_id = JStr ''CALCITE-1'', issue_type = JStr ''Bug'',
     priority = JStr ''Major'', description_length = 3, num_comments = JNum 2,
     time_to_resolve_hours = Some 10, time_in_progress_hours = Some 2,
     lines_added = 10, lines_deleted = 6, lines_updated_est = 6,
     total_files_changed = 4, num_commits = 2\<rparr>"

definition demo_row3 :: row where
  "demo_row3 = \<lparr>issue_id = JStr ''CALCITE-3'', issue_type = JStr ''Task'',
     priority = JStr ''Minor'', description_length = 0, num_comments = JNum 0,
     time_to_resolve_hours = None, time_in_progress_hours = None,
     lines_added = 0, lines_deleted = 7, lines_updated_est = 0,
     total_files_changed = 1, num_commits = 1\<rparr>"

text \<open>
  Two more changelogs. Both start with a transition to "in progress" at 0:00. The second
  entry of the first holds a terminal item before an in-progress item; the second entry
  of the other holds an in-progress item before a terminal item, followed by values
  that are not items or entries.
\<close>

definition demo_changelog2 :: json where
  "demo_changelog2 = JObj [(''histories'', JArr
     [history_entry ''2024-01-01T00:00:00.000+0000'' [status_item ''In Progress''],
      history_entry ''2024-01-01T01:00:00.000+0000''
        [status_item ''Done'', status_item ''In Progress'']])]"

definition assignee_item :: json where
  "assignee_item = JObj [(''field'', JStr ''assignee''), (''toString'', JStr ''jdoe'')]"

definition demo_changelog3 :: json where
  "demo_changelog3 = JObj [(''histories'', JArr
     [history_entry ''2024-01-01T00:00:00.000+0000'' [status_item ''In Progress''],
      history_entry ''2024-01-01T01:00:00.000+0000''
        [assignee_item, status_item ''In Progress'', assignee_item, status_item ''Closed'', JNull],
      JNull])]"

text \<open>An issue whose fields have no \<^verbatim>\<open>description\<close> key.\<close>

definition demo_issue4 :: json where
  "demo_issue4 = JObj
     [(''key'', JStr ''CALCITE-3''),
      (''fields'', JObj
         [(''created'', JStr ''2024-01-01T01:00:00.000+0000''),
          (''resolutiondate'', JNull),
          (''comment'', JNull),
          (''issuetype'', JObj [(''name'', JStr ''Task'')]),
          (''priority'', JObj [(''name'', JStr ''Minor'')])])]"

text \<open>
  A tracker with 2500 issues, the issue at position \<open>i\<close> carrying \<open>i\<close> as its id. It
  serves the issues from \<^verbatim>\<open>startAt\<close> up to \<^verbatim>\<open>startAt + maxResults\<close>, and reports
  the total 2500 with every page.
\<close>

definition demo_issue_at :: "nat \<Rightarrow> json" where
  "demo_issue_at i = JObj [(''id'', JNum (int i))]"

definition demo_server :: server where
  "demo_server n start_at max_results =
     Inr (JObj [(''issues'',
                 JArr (map demo_issue_at
                         [nat start_at..<nat (min (start_at + max_results) 2500)])),
                (''total'', JNum 2500)])"

section \<open>Sequencing and the loop of \<^verbatim>\<open>extract\<close>\<close>

lemma bind_err_Inr: "bind_err x f = Inr y \<longleftrightarrow> (\<exists>v. x = Inr v \<and> f v = Inr y)"
  by (cases x) (simp_all add: bind_err_def)

lemma bind_err_simps [simp]: "bind_err (Inl e) f = Inl e" "bind_err (Inr v) f = f v"
  by (simp_all add: bind_err_def)

lemma build_row_Inr:
  "build_row P key flds changelog commits = Inr r \<longleftrightarrow>
     (\<exists>created resolved tip dl nc it pr.
        created_of P flds = Inr created \<and> resolved_of P flds = Inr resolved \<and>
        get_in_progress_duration P changelog = Inr tip \<and>
        description_length_of flds = Inr dl \<and> num_comments_of flds = Inr nc \<and>
        name_of flds ''issuetype'' = Inr it \<and> name_of flds ''priority'' = Inr pr \<and>
        r = \<lparr>issue_id = key, issue_type = it, priority = pr, description_length = dl,
              num_comments = nc, time_to_resolve_hours = time_to_resolve_of created resolved,
              time_in_progress_hours = tip,
              lines_added = sum_list (map (\<lambda>c. total_get c ''insertions'') commits),
              lines_deleted = sum_list (map (\<lambda>c. total_get c ''deletions'') commits),
              lines_updated_est =
                min (sum_list (map (\<lambda>c. total_get c ''insertions'') commits))
                    (sum_list (map (\<lambda>c. total_get c ''deletions'') commits)),
              total_files_changed = sum_list (map (\<lambda>c. int (length (stats_files c))) commits),
              num_commits = int (length commits)\<rparr>)"
  unfolding build_row_def bind_err_Inr by (rule iffI; (elim exE conjE)?; force)

lemma extract_issue_None:
  "extract_issue P m issue = Inr None \<longleftrightarrow>
     (\<exists>key flds changelog. getitem issue ''key'' = Inr key \<and> getitem issue ''fields'' = Inr flds \<and>
        get issue ''changelog'' (JObj []) = Inr changelog \<and> map_get m key = Inr [])"
  by (auto simp: extract_issue_def bind_err_Inr split: if_splits)

lemma extract_issue_Some:
  "extract_issue P m issue = Inr (Some r) \<longleftrightarrow>
     (\<exists>key flds changelog commits. getitem issue ''key'' = Inr key \<and>
        getitem issue ''fields'' = Inr flds \<and>
        get issue ''changelog'' (JObj []) = Inr changelog \<and> map_get m key = Inr commits \<and>
        commits \<noteq> [] \<and> build_row P key flds changelog commits = Inr r)"
  by (auto simp: extract_issue_def bind_err_Inr split: if_splits)

lemma skipped_unmapped: "extract_issue P m issue = Inr None \<Longrightarrow> mapped_commits m issue = []"
  by (auto simp: extract_issue_None mapped_commits_def)

lemma emitted_mapped: "extract_issue P m issue = Inr (Some r) \<Longrightarrow> mapped_commits m issue \<noteq> []"
  by (auto simp: extract_issue_Some mapped_commits_def)

lemma extract_loop_rows:
  "extract_loop P m issues data sk = Inr (rows, sk') \<Longrightarrow>
     \<exists>new. rows = data @ new \<and>
       list_all2 (\<lambda>issue r. extract_issue P m issue = Inr (Some r))
         (filter (\<lambda>i. mapped_commits m i \<noteq> []) issues) new \<and>
       sk' = sk + length (filter (\<lambda>i. mapped_commits m i = []) issues)"
proof (induction issues arbitrary: data sk)
  case Nil
  then show ?case by simp
next
  case (Cons issue issues)
  show ?case
  proof (cases "extract_issue P m issue")
    case (Inl e)
    with Cons.prems show ?thesis by simp
  next
    case (Inr ro)
    show ?thesis
    proof (cases ro)
      case None
      with Inr Cons.prems have "extract_loop P m issues data (sk + 1) = Inr (rows, sk')" by simp
      from Cons.IH [OF this] None Inr show ?thesis
        by (auto dest: skipped_unmapped)
    next
      case (Some r)
      with Inr Cons.prems have "extract_loop P m issues (data @ [r]) sk = Inr (rows, sk')" by simp
      from Cons.IH [OF this] obtain new where
        "rows = (data @ [r]) @ new"
        "list_all2 (\<lambda>issue r. extract_issue P m issue = Inr (Some r))
           (filter (\<lambda>i. mapped_commits m i \<noteq> []) issues) new"
        "sk' = sk + length (filter (\<lambda>i. mapped_commits m i = []) issues)" by blast
      moreover have "mapped_commits m issue \<noteq> []" using Inr Some by (auto dest: emitted_mapped)
      ultimately show ?thesis using Inr Some
        by (intro exI [of _ "r # new"]) simp
    qed
  qed
qed

lemma extract_rows:
  assumes "extract' P issues m = Inr (rows, skipped)"
  shows "list_all2 (\<lambda>issue r. extract_issue P m issue = Inr (Some r))
           (filter (\<lambda>i. mapped_commits m i \<noteq> []) issues) rows"
    and "skipped = length (filter (\<lambda>i. mapped_commits m i = []) issues)"
  using extract_loop_rows [OF assms [unfolded extract'_def]] by auto

subsection \<open>The example evaluated\<close>

lemma demo_map_eq:
  "demo_map = [''CALCITE-3'' \<mapsto> [demo_commit2], ''CALCITE-1'' \<mapsto> [demo_commit1, demo_commit1]]"
  by (simp add: demo_map_def map_issues_to_commits_def demo_commits_def demo_commit1_def
      demo_commit2_def demo_commit3_def setdefault_append_def findall_key.simps match_here_def
      is_digit_def)

lemma demo_parser_eval:
  "demo_parser ''2024-01-01T00:00:00.000+0000'' = Some 1704067200000000"
  "demo_parser ''2024-01-01T01:00:00.000+0000'' = Some 1704070800000000"
  "demo_parser ''2024-01-01T02:00:00.000+0000'' = Some 1704074400000000"
  "demo_parser ''2024-01-01T04:00:00.000+0000'' = Some 1704081600000000"
  "demo_parser ''2024-01-01T10:00:00.000+0000'' = Some 1704103200000000"
  by (simp_all add: demo_parser_def)

lemma demo_in_progress: "get_in_progress_duration demo_parser demo_changelog = Inr (Some 2)"
  by (simp add: get_in_progress_duration_def demo_changelog_def demo_histories_def
      history_entry_def status_item_def demo_parser_eval lower_char_def done_statuses_def hours_def)

lemma demo_issue1_row: "extract_issue demo_parser demo_map demo_issue1 = Inr (Some demo_row1)"
  by (simp add: extract_issue_def demo_issue1_def demo_map_eq build_row_def created_of_def
      resolved_of_def description_length_of_def num_comments_of_def name_of_def
      time_to_resolve_of_def demo_in_progress demo_row1_def total_get_def demo_commit1_def
      demo_parser_eval hours_def)

lemma demo_issue2_row: "extract_issue demo_parser demo_map demo_issue2 = Inr None"
  by (simp add: extract_issue_def demo_issue2_def demo_map_eq)

lemma demo_issue3_row: "extract_issue demo_parser demo_map demo_issue3 = Inr (Some demo_row3)"
  by (simp add: extract_issue_def demo_issue3_def demo_map_eq build_row_def created_of_def
      resolved_of_def description_length_of_def num_comments_of_def name_of_def
      time_to_resolve_of_def get_in_progress_duration_def demo_row3_def total_get_def
      demo_commit2_def demo_parser_eval)

lemma demo_extract: "extract' demo_parser demo_issues demo_map = Inr ([demo_row1, demo_row3], 1)"
  by (simp add: extract'_def demo_issues_def demo_issue1_row demo_issue2_row demo_issue3_row)

lemma demo_mapped:
  "mapped_commits demo_map demo_issue1 = [demo_commit1, demo_commit1]"
  "mapped_commits demo_map demo_issue2 = []"
  "mapped_commits demo_map demo_issue3 = [demo_commit2]"
  by (simp_all add: mapped_commits_def demo_map_eq demo_issue1_def demo_issue2_def demo_issue3_def)

section \<open>The status scan on the list of transitions\<close>

lemma in_progress_not_done [simp]: "''in progress'' \<notin> set done_statuses"
  by (simp add: done_statuses_def)

lemma terminal_not_in_progress: "is_terminal item \<Longrightarrow> \<not> is_in_progress item"
  by (auto simp: is_terminal_def is_in_progress_def)

lemma scan_items_Cons:
  assumes "getitem h ''created'' = Inr c" and "readable item"
  shows "scan_items h (item # items) f t =
           (if is_in_progress item then scan_items h items c t
            else if is_terminal item \<and> truthy f then Inr (f, c)
            else scan_items h items f t)"
proof (cases "getitem item ''field''")
  case (Inl e)
  with assms(2) show ?thesis by (simp add: readable_def status_target_def)
next
  case fld: (Inr field)
  show ?thesis
  proof (cases "field = JStr ''status''")
    case False
    with fld show ?thesis
      by (simp add: is_in_progress_def is_terminal_def status_target_def)
  next
    case True
    show ?thesis
    proof (cases "getitem item ''toString''")
      case (Inl e)
      with assms(2) fld True show ?thesis by (simp add: readable_def status_target_def)
    next
      case ts: (Inr to_string)
      show ?thesis
      proof (cases "lower to_string")
        case (Inl e)
        with assms(2) fld True ts show ?thesis by (simp add: readable_def status_target_def)
      next
        case (Inr s)
        with fld True ts assms(1) show ?thesis
          by (simp add: is_in_progress_def is_terminal_def status_target_def)
      qed
    qed
  qed
qed

lemma scan_items_flat:
  assumes "getitem h ''created'' = Inr c" and "list_all readable its"
  shows "scan_items h (its @ rest) f t =
           (case scan_flat (map (Pair c) its) f of
              (f', Some e) \<Rightarrow> Inr (f', e)
            | (f', None) \<Rightarrow> scan_items h rest f' t)"
  using assms(2)
proof (induction its arbitrary: f)
  case Nil
  then show ?case by simp
next
  case (Cons item its)
  then have r: "readable item" and rs: "list_all readable its" by simp_all
  show ?case
    using scan_items_Cons [OF assms(1) r, of "its @ rest" f t] Cons.IH [OF rs]
    by simp
qed

lemma scan_flat_append:
  "scan_flat (xs @ ys) f =
     (case scan_flat xs f of (f', Some e) \<Rightarrow> (f', Some e) | (f', None) \<Rightarrow> scan_flat ys f')"
  by (induction xs f rule: scan_flat.induct) simp_all

lemma scan_flat_stop: "scan_flat xs f = (f', Some e) \<Longrightarrow> e \<in> fst ` set xs"
  by (induction xs f rule: scan_flat.induct) (auto split: if_splits)

lemma scan_histories_flat:
  assumes "list_all wf_entry hs" and "\<not> truthy t"
  shows "scan_histories (hs @ rest) f t =
           (case scan_flat (transitions hs) f of
              (f', Some e) \<Rightarrow> Inr (f', e)
            | (f', None) \<Rightarrow> scan_histories rest f' t)"
  using assms(1)
proof (induction hs arbitrary: f)
  case Nil
  then show ?case by (simp add: transitions_def)
next
  case (Cons h hs)
  then have wf: "wf_entry h" and wfs: "list_all wf_entry hs" by simp_all
  from wf obtain ts its where
    c: "getitem h ''created'' = Inr (JStr ts)" and ne: "ts \<noteq> []" and
    i: "bind_err (get h ''items'' (JArr [])) iter = Inr its" and r: "list_all readable its"
    by (auto simp: wf_entry_def split: sum.splits json.splits)
  from i obtain v where g: "get h ''items'' (JArr []) = Inr v" and it: "iter v = Inr its"
    by (cases "get h ''items'' (JArr [])") auto
  have tr: "transitions (h # hs) = map (Pair (JStr ts)) its @ transitions hs"
    by (simp add: transitions_def entry_items_def entry_created_def c i)
  obtain f' eo where sf: "scan_flat (map (Pair (JStr ts)) its) f = (f', eo)"
    by (cases "scan_flat (map (Pair (JStr ts)) its) f")
  show ?case
  proof (cases eo)
    case None
    with sf scan_items_flat [OF c r, of "[]" f t]
    have "scan_items h its f t = Inr (f', t)" by simp
    then show ?thesis
      using g it assms(2) None sf Cons.IH [OF wfs, of f']
      by (simp add: tr scan_flat_append)
  next
    case (Some e)
    with sf scan_flat_stop [of "map (Pair (JStr ts)) its" f f' e] have e: "e = JStr ts"
      by auto
    from Some sf scan_items_flat [OF c r, of "[]" f t]
    have "scan_items h its f t = Inr (f', e)" by simp
    then show ?thesis
      using g it ne e Some sf by (simp add: tr scan_flat_append)
  qed
qed

lemma scan_flat_no_start:
  "list_all (\<lambda>(c, item). \<not> is_in_progress item) xs \<Longrightarrow> \<not> truthy f \<Longrightarrow>
     scan_flat xs f = (f, None)"
  by (induction xs f rule: scan_flat.induct) simp_all

lemma scan_flat_no_end:
  "list_all (\<lambda>(c, item). \<not> is_terminal item) xs \<Longrightarrow>
     scan_flat (xs @ rest) f =
       scan_flat rest (case filter (\<lambda>(c, item). is_in_progress item) xs of
                         [] \<Rightarrow> f | y # ys \<Rightarrow> fst (last (y # ys)))"
proof (induction xs arbitrary: f)
  case Nil
  then show ?case by simp
next
  case (Cons x xs)
  obtain c item where x: "x = (c, item)" by (cases x)
  from Cons.prems x have nt: "\<not> is_terminal item"
    and xs: "list_all (\<lambda>(c, item). \<not> is_terminal item) xs" by simp_all
  show ?case
    using nt Cons.IH [OF xs] x
    by (cases "filter (\<lambda>(c, item). is_in_progress item) xs") simp_all
qed

lemma wf_entry_created: "wf_entry h \<Longrightarrow> \<exists>ts. entry_created h = JStr ts \<and> ts \<noteq> []"
  by (cases "getitem h ''created''")
     (auto simp: wf_entry_def entry_created_def split: json.splits)

lemma wf_transitions:
  assumes "list_all wf_entry hs" and "(c, item) \<in> set (transitions hs)"
  shows "\<exists>ts. c = JStr ts \<and> ts \<noteq> []"
proof -
  from assms(2) obtain h where "h \<in> set hs" and "c = entry_created h"
    by (auto simp: transitions_def)
  with assms(1) wf_entry_created [of h] show ?thesis by (simp add: list_all_iff)
qed

lemma scan_flat_no_stop:
  "list_all (\<lambda>(c, item). \<not> is_terminal item)
     (dropWhile (\<lambda>(c, item). \<not> is_in_progress item) xs) \<Longrightarrow> \<not> truthy f \<Longrightarrow>
     snd (scan_flat xs f) = None"
proof (induction xs)
  case Nil
  then show ?case by simp
next
  case (Cons x xs)
  obtain c item where x: "x = (c, item)" by (cases x)
  show ?case
  proof (cases "is_in_progress item")
    case True
    with Cons.prems x have "list_all (\<lambda>(c, item). \<not> is_terminal item) ((c, item) # xs)"
      by simp
    from scan_flat_no_end [OF this, of "[]" f] x show ?thesis by simp
  next
    case False
    with Cons x show ?thesis by simp
  qed
qed

lemma scan_flat_same_entry:
  "truthy c \<Longrightarrow> is_terminal i2 \<Longrightarrow> scan_flat (map (Pair c) (ys @ [i2])) c = (c, Some c)"
  by (induction ys) (simp_all add: terminal_not_in_progress)

lemma in_progress_readable: "is_in_progress item \<Longrightarrow> readable item"
  by (simp add: is_in_progress_def readable_def)

lemma terminal_readable: "is_terminal item \<Longrightarrow> readable item"
  by (auto simp: is_terminal_def readable_def split: sum.splits)

section \<open>The commit map, key by key\<close>

lemma append_matches_apply:
  "append_matches m c ks k =
     (if k \<in> set ks
      then Some ((case m k of None \<Rightarrow> [] | Some cs \<Rightarrow> cs) @ replicate (count_list ks k) c)
      else m k)"
proof (induction ks arbitrary: m)
  case Nil
  then show ?case by simp
next
  case (Cons a ks)
  show ?case
    by (simp add: Cons.IH setdefault_append_def replicate_append_same)
qed

lemma map_commits_apply:
  "map_commits findall m cs k =
     (if k \<in> (\<Union>c\<in>set cs. set (findall (message c)))
      then Some ((case m k of None \<Rightarrow> [] | Some l \<Rightarrow> l) @
                 concat (map (\<lambda>c. replicate (count_list (findall (message c)) k) c) cs))
      else m k)"
proof (induction cs arbitrary: m)
  case Nil
  then show ?case by simp
next
  case (Cons c cs)
  show ?case
    by (simp add: Cons.IH append_matches_apply count_list_0_iff)
qed

section \<open>The fetch loop, request by request\<close>

lemma fetch_page_ok:
  assumes "srv n start_at p = Inr data" "getitem data ''issues'' = Inr (JArr page)"
    "getitem data ''total'' = Inr (JNum T)"
  shows "fetch_page srv p start_at iss n = Inr (iss @ page, T \<le> start_at + p)"
  using assms by (simp add: fetch_page_def)

text \<open>
  The loop entered for request \<open>j\<close>, when the stop test first holds \<open>d\<close> requests
  later.
\<close>

lemma fetch_loop_from:
  assumes srv: "\<forall>n. \<exists>data. srv n (int n * p) p = Inr data \<and>
                  getitem data ''issues'' = Inr (JArr (pages n)) \<and>
                  getitem data ''total'' = Inr (JNum (totals n))"
  shows "totals (j + d) \<le> int (j + d) * p + p \<Longrightarrow>
         (\<forall>i<d. int (j + i) * p + p < totals (j + i)) \<Longrightarrow> length req = j \<Longrightarrow>
         fetch_loop srv p (int j * p) iss req =
           Some (Inr (iss @ concat (map pages [j..<Suc (j + d)]),
                      req @ map (\<lambda>i. int i * p) [j..<Suc (j + d)]))"
proof (induction d arbitrary: j iss req)
  case 0
  from srv obtain data where
    d: "srv j (int j * p) p = Inr data" "getitem data ''issues'' = Inr (JArr (pages j))"
       "getitem data ''total'' = Inr (JNum (totals j))" by blast
  have "fetch_page srv p (int j * p) iss (length req) =
          Inr (iss @ pages j, totals j \<le> int j * p + p)"
    unfolding \<open>length req = j\<close> using d by (rule fetch_page_ok)
  with "0.prems"(1) show ?case
    by (subst fetch_loop.simps) simp
next
  case (Suc d)
  from srv obtain data where
    d: "srv j (int j * p) p = Inr data" "getitem data ''issues'' = Inr (JArr (pages j))"
       "getitem data ''total'' = Inr (JNum (totals j))" by blast
  have fp: "fetch_page srv p (int j * p) iss (length req) =
          Inr (iss @ pages j, totals j \<le> int j * p + p)"
    unfolding \<open>length req = j\<close> using d by (rule fetch_page_ok)
  from Suc.prems(2) have go: "int j * p + p < totals j" by force
  have nx: "int j * p + p = int (Suc j) * p" by (simp add: algebra_simps)
  have step: "fetch_loop srv p (int j * p) iss req =
      fetch_loop srv p (int (Suc j) * p) (iss @ pages j) (req @ [int j * p])"
    using go by (subst fetch_loop.simps) (simp add: fp nx)
  have a: "totals (Suc j + d) \<le> int (Suc j + d) * p + p" using Suc.prems(1) by simp
  have b: "\<forall>i<d. int (Suc j + i) * p + p < totals (Suc j + i)"
  proof (intro allI impI)
    fix i assume "i < d"
    then have "Suc i < Suc d" by simp
    with Suc.prems(2) have "int (j + Suc i) * p + p < totals (j + Suc i)" by blast
    then show "int (Suc j + i) * p + p < totals (Suc j + i)" by simp
  qed
  have c: "length (req @ [int j * p]) = Suc j" using Suc.prems(3) by simp
  have u: "[j..<Suc (j + Suc d)] = j # [Suc j..<Suc (Suc j + d)]"
    by (simp add: upt_conv_Cons)
  show ?case
    unfolding step Suc.IH [OF a b c] u by simp
qed

text \<open>With a positive page size and bounded totals, some request meets the stop test.\<close>

lemma stop_exists:
  assumes "0 < p" and "\<forall>n. totals n \<le> B"
  shows "\<exists>n. totals n \<le> int n * p + p"
proof -
  have "B \<le> int (nat B) * p + p"
  proof (cases "0 \<le> B")
    case True
    then have "B * 1 \<le> B * p" using assms(1) by (intro mult_left_mono) simp_all
    with True assms(1) show ?thesis by simp
  next
    case False
    with assms(1) show ?thesis by simp
  qed
  with assms(2) have "totals (nat B) \<le> int (nat B) * p + p"
    using order_trans by blast
  then show ?thesis ..
qed

lemma map_upt_append:
  "a \<le> b \<Longrightarrow> b \<le> c \<Longrightarrow> map f [a..<b] @ map f [b..<c] = map f [a..<c]"
  by (metis le_Suc_ex map_append upt_add_eq_append)

section \<open>Issues on which the loop body returns\<close>

lemma returns_iff: "returns x \<longleftrightarrow> (\<exists>v. x = Inr v)"
  by (cases x) (simp_all add: returns_def)

lemma null_or_iff: "null_or ok x \<longleftrightarrow> (\<exists>v. x = Inr v \<and> (v = JNull \<or> ok v))"
  by (cases x) (simp_all add: null_or_def)

lemma description_null_or:
  assumes "null_or (\<lambda>d. returns (len d)) (getitem flds ''description'')"
  shows "returns (description_length_of flds)"
    and "getitem flds ''description'' = Inr JNull \<Longrightarrow> description_length_of flds = Inr 0"
  using assms by (auto simp: null_or_iff description_length_of_def returns_iff)

lemma comment_null_or:
  assumes "null_or (\<lambda>cm. returns (getitem cm ''total'')) (getitem flds ''comment'')"
  shows "returns (num_comments_of flds)"
    and "getitem flds ''comment'' = Inr JNull \<Longrightarrow> num_comments_of flds = Inr (JNum 0)"
  using assms by (auto simp: null_or_iff num_comments_of_def returns_iff)

lemma resolved_null_or:
  assumes "null_or (\<lambda>rd. returns (strptime P rd)) (getitem flds ''resolutiondate'')"
  shows "returns (resolved_of P flds)"
    and "getitem flds ''resolutiondate'' = Inr JNull \<Longrightarrow> resolved_of P flds = Inr None"
  using assms by (auto simp: null_or_iff resolved_of_def returns_iff)

lemma issue_ok_returns:
  assumes req: "required_ok P m issue"
    and opt: "mapped_commits m issue = [] \<or> optional_ok P issue"
  shows "returns (extract_issue P m issue)"
proof -
  from req obtain key commits flds changelog where
    k: "getitem issue ''key'' = Inr key" and c: "map_get m key = Inr commits" and
    f: "getitem issue ''fields'' = Inr flds" and
    l: "get issue ''changelog'' (JObj []) = Inr changelog"
    by (auto simp: required_ok_def returns_iff bind_err_Inr)
  have mc: "mapped_commits m issue = commits" by (simp add: mapped_commits_def k c)
  show ?thesis
  proof (cases "commits = []")
    case True
    then show ?thesis by (simp add: extract_issue_def k c f l returns_def)
  next
    case False
    with req mc k f l obtain created tip it pr where
      "created_of P flds = Inr created" "get_in_progress_duration P changelog = Inr tip"
      "name_of flds ''issuetype'' = Inr it" "name_of flds ''priority'' = Inr pr"
      by (auto simp: required_ok_def returns_iff)
    moreover from opt False mc have "optional_ok P issue" by simp
    with f obtain dl nc rs where
      "description_length_of flds = Inr dl" "num_comments_of flds = Inr nc"
      "resolved_of P flds = Inr rs"
      using description_null_or(1) [of flds] comment_null_or(1) [of flds]
        resolved_null_or(1) [of P flds]
      by (auto simp: optional_ok_def issue_field_def returns_iff)
    ultimately show ?thesis
      using False by (simp add: extract_issue_def k c f l build_row_def returns_def)
  qed
qed

lemma extract_loop_returns:
  "list_all (\<lambda>i. returns (extract_issue P m i)) issues \<Longrightarrow>
     returns (extract_loop P m issues data sk)"
proof (induction issues arbitrary: data sk)
  case Nil
  then show ?case by (simp add: returns_def)
next
  case (Cons issue issues)
  then obtain ro where "extract_issue P m issue = Inr ro" by (auto simp: returns_iff)
  with Cons show ?case by (cases ro) simp_all
qed

subsection \<open>The other examples evaluated\<close>

lemma demo_status:
  "status_target (status_item ''Open'') = Inr (Some ''open'')"
  "status_target (status_item ''In Progress'') = Inr (Some ''in progress'')"
  "status_target (status_item ''Resolved'') = Inr (Some ''resolved'')"
  "status_target (status_item ''Done'') = Inr (Some ''done'')"
  "status_target (status_item ''Closed'') = Inr (Some ''closed'')"
  "status_target assignee_item = Inr None"
  by (simp_all add: status_target_def status_item_def assignee_item_def lower_char_def)

lemma demo_items:
  "is_in_progress (status_item ''In Progress'')" "\<not> is_in_progress (status_item ''Open'')"
  "\<not> is_in_progress assignee_item"
  "is_terminal (status_item ''Resolved'')" "is_terminal (status_item ''Done'')"
  "is_terminal (status_item ''Closed'')"
  "\<not> is_terminal (status_item ''In Progress'')"
  "readable (status_item ''Open'')" "readable (status_item ''In Progress'')"
  "readable (status_item ''Resolved'')" "readable assignee_item"
  "\<not> is_terminal assignee_item"
  by (simp_all add: is_in_progress_def is_terminal_def readable_def demo_status done_statuses_def)

lemma history_entry_simps:
  "getitem (history_entry t its) ''created'' = Inr (JStr t)"
  "get (history_entry t its) ''items'' (JArr []) = Inr (JArr its)"
  "entry_created (history_entry t its) = JStr t"
  "entry_items (history_entry t its) = its"
  "wf_entry (history_entry t its) = (t \<noteq> [] \<and> list_all readable its)"
  by (simp_all add: history_entry_def entry_created_def entry_items_def wf_entry_def)

lemma demo_transitions:
  "transitions demo_histories =
     [(JStr ''2024-01-01T00:00:00.000+0000'', status_item ''Open'')] @
     (JStr ''2024-01-01T01:00:00.000+0000'', status_item ''In Progress'') #
     [(JStr ''2024-01-01T02:00:00.000+0000'', status_item ''In Progress'')] @
     (JStr ''2024-01-01T04:00:00.000+0000'', status_item ''Resolved'') # []"
  by (simp add: transitions_def demo_histories_def history_entry_simps)

lemma demo_issue4_raises: "extract' demo_parser [demo_issue4] demo_map = Inl KeyError"
  by (simp add: extract'_def extract_issue_def demo_issue4_def demo_map_eq build_row_def
      created_of_def resolved_of_def description_length_of_def demo_parser_eval
      get_in_progress_duration_def)

lemma demo_ok:
  "required_ok demo_parser demo_map demo_issue1" "optional_ok demo_parser demo_issue1"
  "required_ok demo_parser demo_map demo_issue2"
  "required_ok demo_parser demo_map demo_issue3" "optional_ok demo_parser demo_issue3"
  by (simp_all add: required_ok_def optional_ok_def returns_def null_or_def issue_field_def
      mapped_commits_def demo_issue1_def demo_issue2_def demo_issue3_def demo_map_eq
      created_of_def name_of_def demo_parser_eval demo_in_progress
      get_in_progress_duration_def [of _ "JObj []"])

lemma demo_issue3_nulls:
  "issue_field demo_issue3 ''description'' = Inr JNull"
  "issue_field demo_issue3 ''comment'' = Inr JNull"
  "issue_field demo_issue3 ''resolutiondate'' = Inr JNull"
  by (simp_all add: issue_field_def demo_issue3_def)

lemma demo_server_ok:
  "\<forall>n. \<exists>data. demo_server n (int n * 1000) 1000 = Inr data \<and>
     getitem data ''issues'' =
       Inr (JArr (map demo_issue_at [n * 1000..<min (n * 1000 + 1000) 2500])) \<and>
     getitem data ''total'' = Inr (JNum 2500)"
proof
  fix n
  have "nat (int n * 1000) = n * 1000" by (simp add: nat_mult_distrib)
  moreover have "nat (min (int n * 1000 + 1000) 2500) = min (n * 1000 + 1000) 2500"
    by linarith
  ultimately show "\<exists>data. demo_server n (int n * 1000) 1000 = Inr data \<and>
     getitem data ''issues'' =
       Inr (JArr (map demo_issue_at [n * 1000..<min (n * 1000 + 1000) 2500])) \<and>
     getitem data ''total'' = Inr (JNum 2500)"
    by (simp add: demo_server_def)
qed

lemma demo_findall:
  "findall_key ''CALCITE'' (message demo_commit1) = [''CALCITE-1'', ''CALCITE-1'']"
  "findall_key ''CALCITE'' (message demo_commit2) = [''CALCITE-3'']"
  "findall_key ''CALCITE'' (message demo_commit3) = []"
  by (simp_all add: demo_commit1_def demo_commit2_def demo_commit3_def findall_key.simps
      match_here_def is_digit_def)

lemma demo_included:
  "filter (\<lambda>i. mapped_commits demo_map i \<noteq> []) demo_issues = [demo_issue1, demo_issue3]"
  "filter (\<lambda>i. mapped_commits demo_map i = []) demo_issues = [demo_issue2]"
  by (simp_all add: demo_issues_def demo_mapped)

section \<open>Rows and mapped commits\<close>

text \<open>
  C2. Whenever \<^verbatim>\<open>extract\<close> returns, its rows are, in order, one row for each issue that
  has at least one mapped commit, carrying the key of that issue, and there is no other
  row; the issues without a mapped commit (their key is absent from the map, or mapped to
  an empty list) are exactly the skipped ones. Hence rows plus skipped issues are all the
  issues, and there are no more rows than issues.
\<close>

theorem rows_iff_mapped_commits:
  assumes "extract' P issues m = Inr (rows, skipped)"
  shows "list_all2 (\<lambda>issue r. getitem issue ''key'' = Inr (issue_id r))
           (filter (\<lambda>i. mapped_commits m i \<noteq> []) issues) rows \<and>
         skipped = length (filter (\<lambda>i. mapped_commits m i = []) issues) \<and>
         length rows + skipped = length issues \<and>
         length rows \<le> length issues"
proof -
  let ?inc = "filter (\<lambda>i. mapped_commits m i \<noteq> []) issues"
  from extract_rows [OF assms]
  have a: "list_all2 (\<lambda>issue r. extract_issue P m issue = Inr (Some r)) ?inc rows"
    and b: "skipped = length (filter (\<lambda>i. mapped_commits m i = []) issues)" by auto
  have c: "list_all2 (\<lambda>issue r. getitem issue ''key'' = Inr (issue_id r)) ?inc rows"
    by (rule list_all2_mono [OF a]) (auto simp: extract_issue_Some build_row_Inr)
  have d: "length rows = length ?inc" using a by (simp add: list_all2_lengthD)
  have e: "length ?inc + length (filter (\<lambda>i. mapped_commits m i = []) issues) = length issues"
    using sum_length_filter_compl [of "\<lambda>i. mapped_commits m i \<noteq> []" issues] by simp
  from b c d e show ?thesis by simp
qed

theorem rows_iff_mapped_commits_witness:
  "extract' demo_parser demo_issues demo_map = Inr ([demo_row1, demo_row3], 1) \<and>
   list_all2 (\<lambda>issue r. getitem issue ''key'' = Inr (issue_id r))
     [demo_issue1, demo_issue3] [demo_row1, demo_row3] \<and>
   (1::nat) = length [demo_issue2] \<and>
   length [demo_row1, demo_row3] + 1 = length demo_issues \<and>
   length [demo_row1, demo_row3] \<le> length demo_issues"
  using rows_iff_mapped_commits [OF demo_extract] demo_extract
  by (simp add: demo_included)

section \<open>Churn\<close>

text \<open>
  C3. In every emitted row, \<^verbatim>\<open>lines_added\<close> and \<^verbatim>\<open>lines_deleted\<close> are the sums of
  the insertions and of the deletions over the commits mapped to the issue, and
  \<^verbatim>\<open>lines_updated_est\<close> is the smaller of the two, whatever their values.
\<close>

theorem lines_updated_est_is_min:
  assumes "extract' P issues m = Inr (rows, skipped)"
  shows "list_all2 (\<lambda>issue r.
            lines_added r = sum_list (map (\<lambda>c. total_get c ''insertions'') (mapped_commits m issue)) \<and>
            lines_deleted r = sum_list (map (\<lambda>c. total_get c ''deletions'') (mapped_commits m issue)) \<and>
            lines_updated_est r = min (lines_added r) (lines_deleted r))
           (filter (\<lambda>i. mapped_commits m i \<noteq> []) issues) rows"
  by (rule list_all2_mono [OF extract_rows(1) [OF assms]])
     (auto simp: extract_issue_Some build_row_Inr mapped_commits_def)

theorem lines_updated_est_is_min_witness:
  "extract' demo_parser demo_issues demo_map = Inr ([demo_row1, demo_row3], 1) \<and>
   lines_added demo_row1 = 5 + 5 \<and> lines_deleted demo_row1 = 3 + 3 \<and>
   lines_updated_est demo_row1 = min (lines_added demo_row1) (lines_deleted demo_row1) \<and>
   lines_added demo_row3 = 0 \<and> lines_deleted demo_row3 = 7 \<and>
   lines_updated_est demo_row3 = min (lines_added demo_row3) (lines_deleted demo_row3)"
  using lines_updated_est_is_min [OF demo_extract] demo_extract
  by (simp add: demo_included demo_mapped total_get_def demo_commit1_def demo_commit2_def)

section \<open>Time to resolve\<close>

text \<open>
  C5. In the row of an issue whose \<^verbatim>\<open>resolutiondate\<close> is null, \<^verbatim>\<open>time_to_resolve_hours\<close>
  is absent (\<open>None\<close>, not a number). In the row of an issue whose \<^verbatim>\<open>resolutiondate\<close>
  is a timestamp, it is the time from \<^verbatim>\<open>created\<close> to the resolution, in hours.
\<close>

theorem time_to_resolve_absent_iff_unresolved:
  assumes "extract' P issues m = Inr (rows, skipped)"
  shows "list_all2 (\<lambda>issue r.
            (issue_field issue ''resolutiondate'' = Inr JNull \<longrightarrow> time_to_resolve_hours r = None) \<and>
            (\<forall>s c resolved created.
               issue_field issue ''resolutiondate'' = Inr (JStr s) \<and> s \<noteq> [] \<and>
               P s = Some resolved \<and>
               issue_field issue ''created'' = Inr (JStr c) \<and> P c = Some created \<longrightarrow>
               time_to_resolve_hours r = Some (hours (resolved - created))))
           (filter (\<lambda>i. mapped_commits m i \<noteq> []) issues) rows"
proof (rule list_all2_mono [OF extract_rows(1) [OF assms]])
  fix issue r
  assume "extract_issue P m issue = Inr (Some r)"
  then obtain flds created resolved where
    f: "getitem issue ''fields'' = Inr flds" and
    c: "created_of P flds = Inr created" and
    rs: "resolved_of P flds = Inr resolved" and
    t: "time_to_resolve_hours r = time_to_resolve_of created resolved"
    by (auto simp: extract_issue_Some build_row_Inr)
  show "(issue_field issue ''resolutiondate'' = Inr JNull \<longrightarrow> time_to_resolve_hours r = None) \<and>
        (\<forall>s c resolved created.
           issue_field issue ''resolutiondate'' = Inr (JStr s) \<and> s \<noteq> [] \<and>
           P s = Some resolved \<and>
           issue_field issue ''created'' = Inr (JStr c) \<and> P c = Some created \<longrightarrow>
           time_to_resolve_hours r = Some (hours (resolved - created)))"
    using f c rs t
    by (auto simp: issue_field_def resolved_of_def created_of_def time_to_resolve_of_def)
qed

theorem time_to_resolve_absent_iff_unresolved_witness:
  "extract' demo_parser demo_issues demo_map = Inr ([demo_row1, demo_row3], 1) \<and>
   issue_field demo_issue3 ''resolutiondate'' = Inr JNull \<and>
   time_to_resolve_hours demo_row3 = None \<and>
   issue_field demo_issue1 ''resolutiondate'' = Inr (JStr ''2024-01-01T10:00:00.000+0000'') \<and>
   time_to_resolve_hours demo_row1 = Some (hours (1704103200000000 - 1704067200000000))"
proof -
  have r3: "issue_field demo_issue3 ''resolutiondate'' = Inr JNull"
    by (simp add: issue_field_def demo_issue3_def)
  have r1: "issue_field demo_issue1 ''resolutiondate'' = Inr (JStr ''2024-01-01T10:00:00.000+0000'')"
    and c1: "issue_field demo_issue1 ''created'' = Inr (JStr ''2024-01-01T00:00:00.000+0000'')"
    by (simp_all add: issue_field_def demo_issue1_def)
  note time_to_resolve_absent_iff_unresolved [OF demo_extract, unfolded demo_included]
  then have a: "issue_field demo_issue3 ''resolutiondate'' = Inr JNull \<longrightarrow>
           time_to_resolve_hours demo_row3 = None"
    and b: "\<forall>s c resolved created.
           issue_field demo_issue1 ''resolutiondate'' = Inr (JStr s) \<and> s \<noteq> [] \<and>
           demo_parser s = Some resolved \<and>
           issue_field demo_issue1 ''created'' = Inr (JStr c) \<and> demo_parser c = Some created \<longrightarrow>
           time_to_resolve_hours demo_row1 = Some (hours (resolved - created))"
    by (simp_all only: list_all2_Cons list_all2_Nil) blast+
  from b r1 c1 demo_parser_eval
  have "time_to_resolve_hours demo_row1 = Some (hours (1704103200000000 - 1704067200000000))"
    by blast
  with a r1 r3 demo_extract show ?thesis by simp
qed

section \<open>Optional fields\<close>

text \<open>
  C6, as amended. Let every issue be readable and let each of its optional fields
  \<^verbatim>\<open>description\<close>, \<^verbatim>\<open>resolutiondate\<close> and \<^verbatim>\<open>comment\<close> be present, with the
  value null or a value of the expected type (issues without commits may have any
  fields). Then \<^verbatim>\<open>extract\<close> returns without an exception, and in the row of an issue a
  null description gives \<^verbatim>\<open>description_length\<close> 0, a null comment gives
  \<^verbatim>\<open>num_comments\<close> 0 and a null resolution date gives an absent
  \<^verbatim>\<open>time_to_resolve_hours\<close>.
\<close>

theorem null_optional_fields:
  assumes "list_all (\<lambda>issue. required_ok P m issue \<and>
                      (mapped_commits m issue = [] \<or> optional_ok P issue)) issues"
  shows "\<exists>rows skipped. extract' P issues m = Inr (rows, skipped) \<and>
           list_all2 (\<lambda>issue r.
               (issue_field issue ''description'' = Inr JNull \<longrightarrow> description_length r = 0) \<and>
               (issue_field issue ''comment'' = Inr JNull \<longrightarrow> num_comments r = JNum 0) \<and>
               (issue_field issue ''resolutiondate'' = Inr JNull \<longrightarrow>
                  time_to_resolve_hours r = None))
             (filter (\<lambda>i. mapped_commits m i \<noteq> []) issues) rows"
proof -
  from assms have "list_all (\<lambda>i. returns (extract_issue P m i)) issues"
    by (auto simp: list_all_iff intro: issue_ok_returns)
  from extract_loop_returns [OF this, of "[]" 0] obtain rows skipped where
    e: "extract' P issues m = Inr (rows, skipped)"
    by (auto simp: returns_iff extract'_def)
  have "list_all2 (\<lambda>issue r.
               (issue_field issue ''description'' = Inr JNull \<longrightarrow> description_length r = 0) \<and>
               (issue_field issue ''comment'' = Inr JNull \<longrightarrow> num_comments r = JNum 0) \<and>
               (issue_field issue ''resolutiondate'' = Inr JNull \<longrightarrow>
                  time_to_resolve_hours r = None))
             (filter (\<lambda>i. mapped_commits m i \<noteq> []) issues) rows"
  proof (rule list_all2_mono [OF extract_rows(1) [OF e]])
    fix issue r
    assume "extract_issue P m issue = Inr (Some r)"
    then obtain flds created resolved where
      f: "getitem issue ''fields'' = Inr flds" and
      d: "description_length_of flds = Inr (description_length r)" and
      n: "num_comments_of flds = Inr (num_comments r)" and
      rs: "resolved_of P flds = Inr resolved" and
      t: "time_to_resolve_hours r = time_to_resolve_of created resolved"
      by (auto simp: extract_issue_Some build_row_Inr)
    show "(issue_field issue ''description'' = Inr JNull \<longrightarrow> description_length r = 0) \<and>
          (issue_field issue ''comment'' = Inr JNull \<longrightarrow> num_comments r = JNum 0) \<and>
          (issue_field issue ''resolutiondate'' = Inr JNull \<longrightarrow> time_to_resolve_hours r = None)"
      using f d n rs t
      by (auto simp: issue_field_def description_length_of_def num_comments_of_def
          resolved_of_def time_to_resolve_of_def)
  qed
  with e show ?thesis by blast
qed

theorem null_optional_fields_witness:
  "list_all (\<lambda>issue. required_ok demo_parser demo_map issue \<and>
               (mapped_commits demo_map issue = [] \<or> optional_ok demo_parser issue))
     demo_issues \<and>
   extract' demo_parser demo_issues demo_map = Inr ([demo_row1, demo_row3], 1) \<and>
   issue_field demo_issue3 ''description'' = Inr JNull \<and> description_length demo_row3 = 0 \<and>
   issue_field demo_issue3 ''comment'' = Inr JNull \<and> num_comments demo_row3 = JNum 0 \<and>
   issue_field demo_issue3 ''resolutiondate'' = Inr JNull \<and>
   time_to_resolve_hours demo_row3 = None"
proof -
  have ok: "list_all (\<lambda>issue. required_ok demo_parser demo_map issue \<and>
               (mapped_commits demo_map issue = [] \<or> optional_ok demo_parser issue))
     demo_issues"
    by (simp add: demo_issues_def demo_ok demo_mapped)
  from null_optional_fields [OF ok] obtain rows skipped where
    e: "extract' demo_parser demo_issues demo_map = Inr (rows, skipped)" and
    l: "list_all2 (\<lambda>issue r.
               (issue_field issue ''description'' = Inr JNull \<longrightarrow> description_length r = 0) \<and>
               (issue_field issue ''comment'' = Inr JNull \<longrightarrow> num_comments r = JNum 0) \<and>
               (issue_field issue ''resolutiondate'' = Inr JNull \<longrightarrow>
                  time_to_resolve_hours r = None))
             (filter (\<lambda>i. mapped_commits demo_map i \<noteq> []) demo_issues) rows" by blast
  from e demo_extract have "rows = [demo_row1, demo_row3]" by simp
  with l have "description_length demo_row3 = 0 \<and> num_comments demo_row3 = JNum 0 \<and>
      time_to_resolve_hours demo_row3 = None"
    by (simp add: demo_included demo_issue3_nulls)
  with ok demo_extract demo_issue3_nulls show ?thesis by simp
qed

text \<open>
  An issue with commits whose fields lack the key \<^verbatim>\<open>description\<close>: the subscription
  raises KeyError and no row is produced.
\<close>

theorem missing_description_counterexample:
  "issue_field demo_issue4 ''description'' = Inl KeyError \<and>
   mapped_commits demo_map demo_issue4 = [demo_commit2] \<and>
   extract' demo_parser [demo_issue4] demo_map = Inl KeyError"
  using demo_issue4_raises
  by (simp add: issue_field_def mapped_commits_def demo_issue4_def demo_map_eq)

section \<open>Time in progress\<close>

text \<open>
  C1, as amended. Let the first transition to "in progress" of a well-formed changelog be
  followed by a transition to a terminal status, with no terminal transition between
  them. The scan then stops at that terminal transition, and the start it keeps is the
  creation time of the last transition to "in progress" before it, not of the first one:
  every such transition overwrites \<^verbatim>\<open>from_status_time\<close>. The duration is the
  difference of the two times in hours.
\<close>

theorem in_progress_duration_last_start:
  assumes hs: "get changelog ''histories'' (JArr []) = Inr (JArr hs)"
    and wf: "list_all wf_entry hs"
    and tr: "transitions hs = pre @ (t1, i1) # mid @ (t2, i2) # post"
    and pre: "list_all (\<lambda>(c, item). \<not> is_in_progress item) pre"
    and i1: "is_in_progress i1"
    and mid: "list_all (\<lambda>(c, item). \<not> is_terminal item) mid"
    and i2: "is_terminal i2"
    and start: "fst (last (filter (\<lambda>(c, item). is_in_progress item) ((t1, i1) # mid))) = JStr s"
    and finish: "t2 = JStr e"
    and P: "P s = Some a" "P e = Some b"
  shows "get_in_progress_duration P changelog = Inr (Some (hours (b - a)))"
proof -
  let ?ip = "\<lambda>(c, item). is_in_progress item"
  have e: "e \<noteq> []" using wf_transitions [OF wf, of t2 i2] tr finish by simp
  define l where "l = last (filter ?ip ((t1, i1) # mid))"
  have "filter ?ip ((t1, i1) # mid) \<noteq> []" using i1 by simp
  then have "l \<in> set (filter ?ip ((t1, i1) # mid))"
    unfolding l_def by (rule last_in_set)
  then have "l \<in> set ((t1, i1) # mid)"
    using filter_is_subset [of ?ip "(t1, i1) # mid"] by blast
  moreover have "set ((t1, i1) # mid) \<subseteq> set (transitions hs)"
    unfolding tr by auto
  ultimately have "l \<in> set (transitions hs)" by blast
  moreover have "fst l = JStr s" using start by (simp only: l_def)
  ultimately have "(JStr s, snd l) \<in> set (transitions hs)"
    by (metis prod.collapse)
  from wf_transitions [OF wf this] have s: "s \<noteq> []" by simp
  have m: "list_all (\<lambda>(c, item). \<not> is_terminal item) ((t1, i1) # mid)"
    using mid i1 terminal_not_in_progress by auto
  have "scan_flat (transitions hs) JNull = scan_flat ((t1, i1) # mid @ (t2, i2) # post) JNull"
    unfolding tr using scan_flat_no_start [OF pre, of JNull] by (simp add: scan_flat_append)
  also have "\<dots> = scan_flat (((t1, i1) # mid) @ (t2, i2) # post) JNull" by simp
  also have "\<dots> = scan_flat ((t2, i2) # post) (JStr s)"
    unfolding scan_flat_no_end [OF m] using i1 start
    by (cases "filter ?ip mid") simp_all
  also have "\<dots> = (JStr s, Some (JStr e))"
    using i2 terminal_not_in_progress [OF i2] s finish by simp
  finally have "scan_flat (transitions hs) JNull = (JStr s, Some (JStr e))" .
  with scan_histories_flat [OF wf, of JNull "[]" JNull]
  have "scan_histories hs JNull JNull = Inr (JStr s, JStr e)" by simp
  with hs s e P show ?thesis by (simp add: get_in_progress_duration_def)
qed

theorem in_progress_duration_last_start_witness:
  "transitions demo_histories =
     [(JStr ''2024-01-01T00:00:00.000+0000'', status_item ''Open''),
      (JStr ''2024-01-01T01:00:00.000+0000'', status_item ''In Progress''),
      (JStr ''2024-01-01T02:00:00.000+0000'', status_item ''In Progress''),
      (JStr ''2024-01-01T04:00:00.000+0000'', status_item ''Resolved'')] \<and>
   get_in_progress_duration demo_parser demo_changelog =
     Inr (Some (hours (1704081600000000 - 1704074400000000)))"
proof -
  have hs: "get demo_changelog ''histories'' (JArr []) = Inr (JArr demo_histories)"
    by (simp add: demo_changelog_def)
  have wf: "list_all wf_entry demo_histories"
    by (simp add: demo_histories_def history_entry_simps demo_items)
  have pre: "list_all (\<lambda>(c, item). \<not> is_in_progress item)
               [(JStr ''2024-01-01T00:00:00.000+0000'', status_item ''Open'')]"
    by (simp add: demo_items)
  have mid: "list_all (\<lambda>(c, item). \<not> is_terminal item)
               [(JStr ''2024-01-01T02:00:00.000+0000'', status_item ''In Progress'')]"
    by (simp add: demo_items)
  have start: "fst (last (filter (\<lambda>(c, item). is_in_progress item)
        ((JStr ''2024-01-01T01:00:00.000+0000'', status_item ''In Progress'') #
         [(JStr ''2024-01-01T02:00:00.000+0000'', status_item ''In Progress'')]))) =
      JStr ''2024-01-01T02:00:00.000+0000''"
    by (simp add: demo_items)
  from in_progress_duration_last_start [where P = demo_parser, OF hs wf demo_transitions pre demo_items(1) mid
      demo_items(4) start refl demo_parser_eval(3) demo_parser_eval(4)]
  show ?thesis using demo_transitions by simp
qed

text \<open>
  On the history \<open>Open\<close>, \<open>In Progress\<close> at 1:00, \<open>In Progress\<close> at 2:00, \<open>Resolved\<close>
  at 4:00, the duration is counted from 2:00, and is not the time from 1:00.
\<close>

theorem first_start_counterexample:
  "get_in_progress_duration demo_parser demo_changelog =
     Inr (Some (hours (1704081600000000 - 1704074400000000))) \<and>
   get_in_progress_duration demo_parser demo_changelog \<noteq>
     Inr (Some (hours (1704081600000000 - 1704070800000000)))"
  by (simp add: demo_in_progress hours_def)

text \<open>
  C10, as amended. Both times are the creation time of the enclosing history entry. If
  an item that leads to "in progress" is followed within its own entry by an item that
  leads to a terminal status, and the scan reaches that in-progress item (before it, no
  terminal transition follows a transition to "in progress"), then the scan stops in
  that entry, start and end are that one creation time, and the duration is exactly 0.
  What follows the terminal item, in the entry and in the changelog, is not read.
\<close>

theorem same_entry_zero_duration:
  assumes hs: "get changelog ''histories'' (JArr []) = Inr (JArr (pre @ h # post))"
    and wf: "list_all wf_entry pre"
    and c: "getitem h ''created'' = Inr (JStr ts)" and ts: "ts \<noteq> []" and P: "P ts = Some t"
    and its: "get h ''items'' (JArr []) = Inr (JArr (xs @ i1 # ys @ i2 # zs))"
    and xs: "list_all readable xs"
    and before: "list_all (\<lambda>(c, item). \<not> is_terminal item)
                   (dropWhile (\<lambda>(c, item). \<not> is_in_progress item)
                      (transitions pre @ map (Pair (JStr ts)) xs))"
    and i1: "is_in_progress i1"
    and ys: "list_all readable ys"
    and i2: "is_terminal i2"
  shows "get_in_progress_duration P changelog = Inr (Some 0)"
proof -
  let ?c = "JStr ts"
  have r: "list_all readable (xs @ i1 # ys @ [i2])"
    using xs ys in_progress_readable [OF i1] terminal_readable [OF i2] by simp
  obtain f1 e1 where p1: "scan_flat (transitions pre) JNull = (f1, e1)"
    by (cases "scan_flat (transitions pre) JNull")
  obtain f2 e2 where p2: "scan_flat (map (Pair ?c) xs) f1 = (f2, e2)"
    by (cases "scan_flat (map (Pair ?c) xs) f1")
  from scan_flat_no_stop [OF before, of JNull]
  have "snd (scan_flat (transitions pre @ map (Pair ?c) xs) JNull) = None" by simp
  with p1 p2 have e: "e1 = None" "e2 = None"
    by (auto simp: scan_flat_append split: option.splits)
  have "scan_flat (map (Pair ?c) (xs @ i1 # ys @ [i2])) f1 =
        scan_flat ((?c, i1) # map (Pair ?c) (ys @ [i2])) f2"
    using p2 e by (simp add: scan_flat_append)
  also have "\<dots> = (?c, Some ?c)"
    using i1 scan_flat_same_entry [of ?c i2 ys] ts i2 by simp
  finally have f: "scan_flat (map (Pair ?c) (xs @ i1 # ys @ [i2])) f1 = (?c, Some ?c)" .
  have "scan_items h ((xs @ i1 # ys @ [i2]) @ zs) f1 JNull = Inr (?c, ?c)"
    unfolding scan_items_flat [OF c r] f by simp
  then have "scan_items h (xs @ i1 # ys @ i2 # zs) f1 JNull = Inr (?c, ?c)" by simp
  then have "scan_histories (h # post) f1 JNull = Inr (?c, ?c)"
    using its ts by simp
  moreover have "scan_histories (pre @ h # post) JNull JNull = scan_histories (h # post) f1 JNull"
    using scan_histories_flat [OF wf, of JNull "h # post" JNull] p1 e by simp
  ultimately have "scan_histories (pre @ h # post) JNull JNull = Inr (?c, ?c)" by simp
  with hs ts P show ?thesis by (simp add: get_in_progress_duration_def hours_def)
qed

theorem same_entry_zero_duration_witness:
  "get_in_progress_duration demo_parser demo_changelog3 = Inr (Some 0)"
proof -
  have hs: "get demo_changelog3 ''histories'' (JArr []) =
      Inr (JArr ([history_entry ''2024-01-01T00:00:00.000+0000'' [status_item ''In Progress'']] @
        history_entry ''2024-01-01T01:00:00.000+0000''
          [assignee_item, status_item ''In Progress'', assignee_item, status_item ''Closed'',
           JNull] # [JNull]))"
    by (simp add: demo_changelog3_def)
  have wf: "list_all wf_entry [history_entry ''2024-01-01T00:00:00.000+0000'' [status_item ''In Progress'']]"
    by (simp add: history_entry_simps demo_items)
  have its: "get (history_entry ''2024-01-01T01:00:00.000+0000''
          [assignee_item, status_item ''In Progress'', assignee_item, status_item ''Closed'',
           JNull]) ''items'' (JArr []) =
      Inr (JArr ([assignee_item] @ status_item ''In Progress'' # [assignee_item] @
                 status_item ''Closed'' # [JNull]))"
    by (simp add: history_entry_simps)
  have ts: "''2024-01-01T01:00:00.000+0000'' \<noteq> []" by simp
  have xs: "list_all readable [assignee_item]" by (simp add: demo_items)
  have before: "list_all (\<lambda>(c, item). \<not> is_terminal item)
      (dropWhile (\<lambda>(c, item). \<not> is_in_progress item)
         (transitions [history_entry ''2024-01-01T00:00:00.000+0000'' [status_item ''In Progress'']] @
          map (Pair (JStr ''2024-01-01T01:00:00.000+0000'')) [assignee_item]))"
    by (simp add: transitions_def history_entry_simps demo_items)
  from same_entry_zero_duration [where P = demo_parser, OF hs wf history_entry_simps(1) ts
      demo_parser_eval(2) its xs before demo_items(1) xs demo_items(6)]
  show ?thesis .
qed

text \<open>
  An entry that holds a terminal item before an in-progress item, after an earlier
  transition to "in progress": the two times differ by one hour.
\<close>

theorem same_entry_counterexample:
  "is_terminal (status_item ''Done'') \<and> is_in_progress (status_item ''In Progress'') \<and>
   get_in_progress_duration demo_parser demo_changelog2 = Inr (Some 1) \<and>
   get_in_progress_duration demo_parser demo_changelog2 \<noteq> Inr (Some 0)"
proof -
  have "get_in_progress_duration demo_parser demo_changelog2 = Inr (Some 1)"
    by (simp add: get_in_progress_duration_def demo_changelog2_def history_entry_def
        status_item_def demo_parser_eval lower_char_def done_statuses_def hours_def)
  then show ?thesis by (simp add: demo_items)
qed

section \<open>The commit map\<close>

text \<open>
  C7. The list that the map holds for a key is made of the commits in the order of the
  traversal, each one repeated as many times as the pattern matches that key in its
  message (the lookup yields the empty list for a key that never matches). So a commit
  whose message names a key twice is in the list of that key twice, and counts twice
  in \<^verbatim>\<open>num_commits\<close> and in the churn sums.
\<close>

theorem commit_appended_once_per_match:
  "map_get (map_issues_to_commits findall commits issues) (JStr k) =
     Inr (concat (map (\<lambda>c. replicate (count_list (findall (message c)) k) c) commits))"
proof -
  have "\<forall>c\<in>set commits. k \<notin> set (findall (message c)) \<Longrightarrow>
        concat (map (\<lambda>c. replicate (count_list (findall (message c)) k) c) commits) = []"
    by (simp add: count_list_0_iff)
  then show ?thesis
    by (auto simp: map_issues_to_commits_def map_commits_apply)
qed

theorem commit_appended_once_per_match_witness:
  "findall_key ''CALCITE'' (message demo_commit1) = [''CALCITE-1'', ''CALCITE-1''] \<and>
   map_get demo_map (JStr ''CALCITE-1'') = Inr [demo_commit1, demo_commit1] \<and>
   extract_issue demo_parser demo_map demo_issue1 = Inr (Some demo_row1) \<and>
   num_commits demo_row1 = 2 \<and>
   lines_added demo_row1 = 2 * total_get demo_commit1 ''insertions''"
proof -
  from commit_appended_once_per_match
    [of "findall_key ''CALCITE''" demo_commits demo_issues "''CALCITE-1''"]
  have "map_get demo_map (JStr ''CALCITE-1'') = Inr [demo_commit1, demo_commit1]"
    unfolding demo_map_def by (simp add: demo_commits_def demo_findall)
  moreover have "num_commits demo_row1 = 2"
    "lines_added demo_row1 = 2 * total_get demo_commit1 ''insertions''"
    by (simp_all add: demo_row1_def total_get_def demo_commit1_def)
  ultimately show ?thesis using demo_findall(1) demo_issue1_row by simp
qed

text \<open>
  C8. The keys of the map are exactly the keys that match in the message of at least one
  commit, and no key is mapped to the empty list.
\<close>

theorem mapped_lists_nonempty:
  "dom (map_issues_to_commits findall commits issues) =
     (\<Union>c\<in>set commits. set (findall (message c))) \<and>
   (\<forall>k cs. map_issues_to_commits findall commits issues k = Some cs \<longrightarrow> cs \<noteq> [])"
proof -
  have "k \<in> set (findall (message c)) \<Longrightarrow> c \<in> set commits \<Longrightarrow>
        concat (map (\<lambda>c. replicate (count_list (findall (message c)) k) c) commits) \<noteq> []" for k c
    by (auto simp: count_list_0_iff)
  then show ?thesis
    by (auto simp: map_issues_to_commits_def map_commits_apply dom_def split: if_splits)
qed

theorem mapped_lists_nonempty_witness:
  "dom demo_map = {''CALCITE-1'', ''CALCITE-3''} \<and> demo_map ''CALCITE-2'' = None \<and>
   demo_map ''CALCITE-1'' \<noteq> Some [] \<and> demo_map ''CALCITE-3'' \<noteq> Some []"
proof -
  from mapped_lists_nonempty [of "findall_key ''CALCITE''" demo_commits demo_issues]
  have d: "dom demo_map = (\<Union>c\<in>set demo_commits. set (findall_key ''CALCITE'' (message c)))"
    and n: "\<forall>k cs. demo_map k = Some cs \<longrightarrow> cs \<noteq> []"
    unfolding demo_map_def by blast+
  from d have d': "dom demo_map = {''CALCITE-1'', ''CALCITE-3''}"
    by (simp add: demo_commits_def demo_findall)
  have "''CALCITE-2'' \<notin> dom demo_map" unfolding d' by simp
  then have a: "demo_map ''CALCITE-2'' = None" by (simp add: domIff)
  from n have b: "demo_map ''CALCITE-1'' \<noteq> Some []" and c: "demo_map ''CALCITE-3'' \<noteq> Some []"
    by fast+
  from d' a b c show ?thesis by simp
qed

section \<open>Pagination\<close>

text \<open>
  C4. Let the tracker answer request number \<open>n\<close>, which asks for the offset \<open>n\<close> times
  the page size, with the page \<open>pages n\<close> and the total \<open>totals n\<close>, let the page
  size be positive and the totals bounded. Then \<^verbatim>\<open>fetch_issues\<close> returns. It has
  requested the offsets 0, \<open>p\<close>, \<open>2p\<close>, ... up to the first request at which offset
  plus page size reaches or exceeds the total reported with it, and no further one, and
  its result is the pages served for these requests, appended in the order of the
  requests. For a total of 2500 and a page size of 1000 these are the offsets 0, 1000
  and 2000, and the 2500 issues of the tracker in their order.
\<close>

theorem fetch_issues_pagination:
  assumes p: "0 < p"
    and srv: "\<forall>n. \<exists>data. srv n (int n * p) p = Inr data \<and>
                getitem data ''issues'' = Inr (JArr (pages n)) \<and>
                getitem data ''total'' = Inr (JNum (totals n))"
    and bound: "\<forall>n. totals n \<le> B"
  shows "\<exists>k. fetch_issues srv p =
               Some (Inr (concat (map pages [0..<Suc k]), map (\<lambda>i. int i * p) [0..<Suc k])) \<and>
             totals k \<le> int k * p + p \<and>
             (\<forall>i<k. int i * p + p < totals i)"
proof -
  define k where "k = (LEAST n. totals n \<le> int n * p + p)"
  from stop_exists [OF p bound] have s: "totals k \<le> int k * p + p"
    unfolding k_def by (rule LeastI_ex)
  have c: "\<forall>i<k. int i * p + p < totals i"
  proof (intro allI impI)
    fix i assume "i < k"
    then have "\<not> totals i \<le> int i * p + p" unfolding k_def by (rule not_less_Least)
    then show "int i * p + p < totals i" by simp
  qed
  from s c srv fetch_loop_from [where srv = srv and p = p and pages = pages and totals = totals
      and j = 0 and d = k and iss = "[]" and req = "[]"]
  have "fetch_issues srv p =
          Some (Inr (concat (map pages [0..<Suc k]), map (\<lambda>i. int i * p) [0..<Suc k]))"
    by (simp add: fetch_issues_def)
  with s c show ?thesis by blast
qed

theorem fetch_issues_pagination_witness:
  "fetch_issues demo_server 1000 =
     Some (Inr (map demo_issue_at [0..<2500], [0, 1000, 2000])) \<and>
   length (map demo_issue_at [0..<2500]) = 2500"
proof -
  let ?pages = "\<lambda>n. map demo_issue_at [n * 1000..<min (n * 1000 + 1000) 2500]"
  have p: "(0::int) < 1000" by simp
  have b: "\<forall>n::nat. (2500::int) \<le> 2500" by simp
  from fetch_issues_pagination [where srv = demo_server and p = 1000 and pages = ?pages
      and totals = "\<lambda>n. 2500" and B = 2500] p demo_server_ok b
  obtain k where
    f: "fetch_issues demo_server 1000 =
          Some (Inr (concat (map ?pages [0..<Suc k]), map (\<lambda>i. int i * 1000) [0..<Suc k]))"
    and s: "(2500::int) \<le> int k * 1000 + 1000"
    and e: "\<forall>i<k. int i * 1000 + 1000 < (2500::int)" by blast
  from s have "2 \<le> k" by simp
  moreover have "k < 3"
  proof (rule ccontr)
    assume "\<not> k < 3"
    then have "2 < k" by simp
    with e have "int 2 * 1000 + 1000 < (2500::int)" by blast
    then show False by simp
  qed
  ultimately have k: "k = Suc (Suc 0)" by simp
  have u: "[0..<Suc (Suc (Suc 0))] = [0, Suc 0, Suc (Suc 0)]" by (simp add: upt_rec)
  have o: "map (\<lambda>i. int i * 1000) [0, Suc 0, Suc (Suc 0)] = [0, 1000, 2000]" by simp
  have b0: "?pages 0 = map demo_issue_at [0..<1000]"
    and b1: "?pages (Suc 0) = map demo_issue_at [1000..<2000]"
    and b2: "?pages (Suc (Suc 0)) = map demo_issue_at [2000..<2500]"
    by (simp_all only: mult_0 add_0 mult_Suc min_def) (simp_all only: numeral_eq_iff
        semiring_norm numeral_plus_numeral numeral_le_iff if_True if_False add_0_right)
  have "concat (map ?pages [0, Suc 0, Suc (Suc 0)]) =
          map demo_issue_at [0..<1000] @ map demo_issue_at [1000..<2000] @
          map demo_issue_at [2000..<2500]"
    unfolding list.map concat.simps b0 b1 b2 by (simp only: append_Nil2)
  also have "\<dots> = map demo_issue_at [0..<2500]"
    by (simp only: map_upt_append [of 1000 2000 2500] map_upt_append [of 0 1000 2500]
        numeral_le_iff semiring_norm zero_le)
  finally have c: "concat (map ?pages [0, Suc 0, Suc (Suc 0)]) = map demo_issue_at [0..<2500]" .
  have "length (map demo_issue_at [0..<2500]) = 2500" by (simp only: length_map length_upt diff_zero)
  with f show ?thesis unfolding k u o c by (simp only: simp_thms)
qed

end
